theory Spec2Isabelle
  imports Complex_Main "HOL-Library.AList" "HOL-Library.Multiset"
begin

section \<open>Rotation index (core/providers/rotation\_manager.py)\<close>

text \<open>
  \<^verbatim>\<open>ModelRotationManager._agent_rotation_state\<close> is a dict from alias to a Python int.
  The durable store is a Redis client, with its counters and its string values:
  \<^verbatim>\<open>INCR\<close> creates a missing key at 0, adds one and returns the new value; it raises when
  the server cannot be reached and when the stored value is the largest signed 64-bit
  integer.
\<close>

record rotation_manager =
  agent_rotation_state :: "string \<rightharpoonup> int"

record redis =
  counters :: "string \<rightharpoonup> int"
  strings :: "string \<rightharpoonup> string"
  reachable :: bool

definition rotation_manager_init :: rotation_manager where
  "rotation_manager_init = \<lparr>agent_rotation_state = Map.empty\<rparr>"

definition redis_init :: redis where
  "redis_init = \<lparr>counters = Map.empty, strings = Map.empty, reachable = True\<rparr>"

definition redis_value :: "redis \<Rightarrow> string \<Rightarrow> int" where
  "redis_value r k = (case counters r k of None \<Rightarrow> 0 | Some v \<Rightarrow> v)"

definition rotation_key :: "string \<Rightarrow> string" where
  "rotation_key alias_name = ''rotation:index:'' @ alias_name"

definition redis_incr :: "redis \<Rightarrow> string \<Rightarrow> (int \<times> redis) option" where
  "redis_incr r k =
     (if \<not> reachable r then None
      else if redis_value r k = 2 ^ 63 - 1 then None
      else Some (redis_value r k + 1, r\<lparr>counters := (counters r)(k \<mapsto> redis_value r k + 1)\<rparr>))"

definition memory_rotation_index ::
  "rotation_manager \<Rightarrow> string \<Rightarrow> int \<Rightarrow> int \<times> rotation_manager" where
  "memory_rotation_index rm alias_name pool_size =
     (let current_index = (case agent_rotation_state rm alias_name of None \<Rightarrow> 0 | Some c \<Rightarrow> c);
          next_index = (current_index + 1) mod pool_size
      in (current_index,
          rm\<lparr>agent_rotation_state := (agent_rotation_state rm)(alias_name \<mapsto> next_index)\<rparr>))"

definition get_rotation_index ::
  "rotation_manager \<Rightarrow> string \<Rightarrow> int \<Rightarrow> redis option \<Rightarrow> int \<times> rotation_manager \<times> redis option" where
  "get_rotation_index rm alias_name pool_size redis_client =
     (if pool_size \<le> 1 then (0, rm, redis_client)
      else
        (case redis_client of
           None \<Rightarrow>
             (case memory_rotation_index rm alias_name pool_size of
                (i, rm') \<Rightarrow> (i, rm', redis_client))
         | Some r \<Rightarrow>
             (case redis_incr r (rotation_key alias_name) of
                Some (val, r') \<Rightarrow> (val mod pool_size, rm, Some r')
              | None \<Rightarrow>
                  (case memory_rotation_index rm alias_name pool_size of
                     (i, rm') \<Rightarrow> (i, rm', redis_client)))))"

text \<open>The indices returned by \<open>n\<close> successive calls for one alias and pool size.\<close>

fun rotation_queries ::
  "nat \<Rightarrow> rotation_manager \<Rightarrow> string \<Rightarrow> int \<Rightarrow> redis option \<Rightarrow> int list" where
  "rotation_queries 0 rm alias_name pool_size rc = []"
| "rotation_queries (Suc n) rm alias_name pool_size rc =
     (case get_rotation_index rm alias_name pool_size rc of
        (i, rm', rc') \<Rightarrow> i # rotation_queries n rm' alias_name pool_size rc')"

text \<open>The state a backend is in before a run of queries.\<close>

definition memory_ready :: "rotation_manager \<Rightarrow> string \<Rightarrow> int \<Rightarrow> bool" where
  "memory_ready rm alias_name pool_size =
     (case agent_rotation_state rm alias_name of
        None \<Rightarrow> True
      | Some c \<Rightarrow> 0 \<le> c \<and> c < pool_size)"

definition memory_value :: "rotation_manager \<Rightarrow> string \<Rightarrow> int" where
  "memory_value rm alias_name =
     (case agent_rotation_state rm alias_name of None \<Rightarrow> 0 | Some c \<Rightarrow> c)"

definition redis_ready :: "redis \<Rightarrow> string \<Rightarrow> nat \<Rightarrow> bool" where
  "redis_ready r alias_name n =
     (reachable r \<and> redis_value r (rotation_key alias_name) + int n < 2 ^ 63)"

section \<open>Credential pool (core/providers/key\_manager.py)\<close>

text \<open>
  A pool is the dict that \<^verbatim>\<open>_init_provider_pool\<close> builds. The \<^verbatim>\<open>available\<close> queue is an
  unbounded FIFO, its head first; the dicts \<^verbatim>\<open>quarantined\<close> and \<^verbatim>\<open>retired\<close> are association
  lists in insertion order. Clock readings (\<^verbatim>\<open>time.time()\<close>) are integers of some unit.
\<close>

type_synonym key = string
type_synonym provider = string

definition ENABLE_QUARANTINE :: bool where
  "ENABLE_QUARANTINE = True"

definition GET_KEY_TIMEOUT_SECONDS :: int where
  "GET_KEY_TIMEOUT_SECONDS = 15"

definition QUARANTINE_DURATION_SECONDS :: int where
  "QUARANTINE_DURATION_SECONDS = 300"

record quarantine_entry =
  reason :: string
  end_time :: int

record pool =
  available :: "key list"
  quarantined :: "(key \<times> quarantine_entry) list"
  retired :: "(key \<times> string) list"
  total_keys :: int
  free_keys :: "key list"
  paid_keys :: "key list"

record api_key_manager =
  pools :: "provider \<rightharpoonup> pool"
  key_metadata :: "key \<rightharpoonup> string"

datatype key_error = GetKeyTimeoutError

definition startswith :: "string \<Rightarrow> string \<Rightarrow> bool" where
  "startswith s p = (take (length p) s = p)"

definition dict_in :: "'k \<Rightarrow> ('k \<times> 'v) list \<Rightarrow> bool" where
  "dict_in k d = (k \<in> set (map fst d))"

definition init_provider_pool :: pool where
  "init_provider_pool =
     \<lparr>available = [], quarantined = [], retired = [], total_keys = 0,
      free_keys = [], paid_keys = []\<rparr>"

text \<open>
  The loading phase of \<^verbatim>\<open>load_all_keys\<close> for one provider, from the keys read from its two
  files and the order \<^verbatim>\<open>random.shuffle\<close> left them in.
\<close>

definition load_keys :: "key list \<Rightarrow> key list \<Rightarrow> key list \<Rightarrow> pool \<Rightarrow> pool" where
  "load_keys free paid shuffled pl =
     pl\<lparr>free_keys := free, paid_keys := paid, available := shuffled,
        total_keys := int (length (free @ paid))\<rparr>"

text \<open>
  \<^verbatim>\<open>asyncio.wait_for(pool["available"].get(), timeout=GET_KEY_TIMEOUT_SECONDS)\<close>. A caller
  that finds the queue empty waits; what the other tasks do meanwhile is the list of arrivals:
  its next entry \<open>(d, k)\<close> says that key \<open>k\<close> is put into the queue \<open>d\<close> seconds after this
  wait began. \<open>None\<close> is the timeout.
\<close>

type_synonym arrivals = "(int \<times> key) list"

fun queue_get :: "key list \<Rightarrow> arrivals \<Rightarrow> (key \<times> key list \<times> arrivals) option" where
  "queue_get (k # q) arr = Some (k, q, arr)"
| "queue_get [] [] = None"
| "queue_get [] ((d, k) # arr) =
     (if d < GET_KEY_TIMEOUT_SECONDS then Some (k, [], arr) else None)"

function pool_get_key :: "pool \<Rightarrow> arrivals \<Rightarrow> (key_error + key) \<times> pool \<times> arrivals" where
  "pool_get_key pl arr =
     (case queue_get (available pl) arr of
        None \<Rightarrow> (Inl GetKeyTimeoutError, pl, arr)
      | Some (k, q, arr') \<Rightarrow>
          if dict_in k (retired pl) then pool_get_key (pl\<lparr>available := q\<rparr>) arr'
          else (Inr k, pl\<lparr>available := q\<rparr>, arr'))"
  by pat_completeness auto
termination
proof (relation "measure (\<lambda>(pl, arr). length (available pl) + length arr)")
  show "wf (measure (\<lambda>(pl, arr). length (available pl) + length arr))"
    by simp
next
  fix pl :: pool and arr :: arrivals and x2 k y q arr'
  assume "queue_get (available pl) arr = Some x2" and "(k, y) = x2" and "(q, arr') = y"
  then have "queue_get (available pl) arr = Some (k, q, arr')"
    by simp
  then have "length q + length arr' < length (available pl) + length arr"
    by (cases "available pl"; cases arr) (auto split: if_splits)
  then show "((pl\<lparr>available := q\<rparr>, arr'), pl, arr)
               \<in> measure (\<lambda>(pl, arr). length (available pl) + length arr)"
    by simp
qed

declare pool_get_key.simps [simp del]

definition get_key ::
  "api_key_manager \<Rightarrow> provider \<Rightarrow> arrivals
     \<Rightarrow> (key_error + key option) \<times> api_key_manager \<times> arrivals" where
  "get_key m provider arr =
     (if startswith provider ''local'' then (Inr (Some ''local-key-placeholder''), m, arr)
      else
        (case pools m provider of
           None \<Rightarrow> (Inr None, m, arr)
         | Some pl \<Rightarrow>
             (case pool_get_key pl arr of
                (Inl e, pl', arr') \<Rightarrow> (Inl e, m\<lparr>pools := (pools m)(provider \<mapsto> pl')\<rparr>, arr')
              | (Inr k, pl', arr') \<Rightarrow>
                  (Inr (Some k), m\<lparr>pools := (pools m)(provider \<mapsto> pl')\<rparr>, arr'))))"

definition pool_release_key :: "pool \<Rightarrow> key \<Rightarrow> pool" where
  "pool_release_key pl k =
     (if dict_in k (retired pl) \<or> dict_in k (quarantined pl) then pl
      else pl\<lparr>available := available pl @ [k]\<rparr>)"

definition release_key :: "api_key_manager \<Rightarrow> provider \<Rightarrow> key \<Rightarrow> api_key_manager" where
  "release_key m provider k =
     (if startswith provider ''local'' then m
      else
        (case pools m provider of
           None \<Rightarrow> m
         | Some pl \<Rightarrow> m\<lparr>pools := (pools m)(provider \<mapsto> pool_release_key pl k)\<rparr>))"

definition pool_quarantine_key :: "pool \<Rightarrow> key \<Rightarrow> string \<Rightarrow> int \<Rightarrow> int \<Rightarrow> pool" where
  "pool_quarantine_key pl k why duration now =
     pl\<lparr>quarantined :=
          AList.update k \<lparr>reason = why, end_time = now + duration\<rparr> (quarantined pl)\<rparr>"

definition quarantine_key ::
  "api_key_manager \<Rightarrow> provider \<Rightarrow> key \<Rightarrow> string \<Rightarrow> int \<Rightarrow> int \<Rightarrow> api_key_manager" where
  "quarantine_key m provider k why duration now =
     (if startswith provider ''local'' then m
      else if \<not> ENABLE_QUARANTINE then release_key m provider k
      else
        (case pools m provider of
           None \<Rightarrow> m
         | Some pl \<Rightarrow>
             m\<lparr>pools := (pools m)(provider \<mapsto> pool_quarantine_key pl k why duration now)\<rparr>))"

definition pool_retire_key :: "pool \<Rightarrow> key \<Rightarrow> string \<Rightarrow> pool" where
  "pool_retire_key pl k why =
     (if dict_in k (retired pl) then pl
      else
        pl\<lparr>quarantined :=
             (if dict_in k (quarantined pl) then AList.delete k (quarantined pl)
              else quarantined pl),
           retired := AList.update k why (retired pl),
           total_keys := max 0 (total_keys pl - 1)\<rparr>)"

definition retire_key :: "api_key_manager \<Rightarrow> provider \<Rightarrow> key \<Rightarrow> string \<Rightarrow> api_key_manager" where
  "retire_key m provider k why =
     (if startswith provider ''local'' then m
      else
        (case pools m provider of
           None \<Rightarrow> m
         | Some pl \<Rightarrow> m\<lparr>pools := (pools m)(provider \<mapsto> pool_retire_key pl k why)\<rparr>))"

text \<open>
  One round of the \<^verbatim>\<open>_check_quarantine\<close> loop at clock reading \<open>now\<close>: under the lock the
  expired keys are deleted from \<^verbatim>\<open>quarantined\<close> (a dict has each key once, so deleting the
  selected keys is filtering them out), then each is put into the queue.
\<close>

definition sweep_pool :: "int \<Rightarrow> pool \<Rightarrow> pool" where
  "sweep_pool now pl =
     (let keys_to_release = map fst (filter (\<lambda>(k, d). end_time d \<le> now) (quarantined pl))
      in if keys_to_release = [] then pl
         else pl\<lparr>quarantined := filter (\<lambda>(k, d). \<not> end_time d \<le> now) (quarantined pl),
                 available := available pl @ keys_to_release\<rparr>)"

definition check_quarantine_once :: "int \<Rightarrow> api_key_manager \<Rightarrow> api_key_manager" where
  "check_quarantine_once now m =
     m\<lparr>pools :=
         (\<lambda>provider.
            case pools m provider of
              None \<Rightarrow> None
            | Some pl \<Rightarrow>
                if startswith provider ''local'' \<or> quarantined pl = [] then Some pl
                else Some (sweep_pool now pl))\<rparr>"

text \<open>
  \<^verbatim>\<open>get_full_status\<close> for one provider: the sizes of \<^verbatim>\<open>available\<close>, \<^verbatim>\<open>quarantined\<close> and
  \<^verbatim>\<open>retired\<close>, and \<^verbatim>\<open>total_keys\<close>.
\<close>

definition get_full_status :: "api_key_manager \<Rightarrow> provider \<Rightarrow> (nat \<times> nat \<times> nat \<times> int) option" where
  "get_full_status m provider =
     (case pools m provider of
        None \<Rightarrow> None
      | Some pl \<Rightarrow>
          Some (length (available pl), length (quarantined pl), length (retired pl),
                total_keys pl))"

text \<open>
  What the callers of one provider's pool do, as a sequence. A caller that waits for a key
  while another task puts one back is the same as its acquisition coming after that put, so
  an acquisition in a sequence meets no arrivals: it takes a key or times out.
\<close>

datatype pool_op =
    Acquire
  | Release key
  | Quarantine key string int int
  | Retire key string
  | Sweep int

fun apply_op :: "provider \<Rightarrow> pool_op \<Rightarrow> api_key_manager \<Rightarrow> api_key_manager" where
  "apply_op p Acquire m = fst (snd (get_key m p []))"
| "apply_op p (Release k) m = release_key m p k"
| "apply_op p (Quarantine k why duration now) m = quarantine_key m p k why duration now"
| "apply_op p (Retire k why) m = retire_key m p k why"
| "apply_op p (Sweep now) m = check_quarantine_once now m"

fun run_ops :: "provider \<Rightarrow> pool_op list \<Rightarrow> api_key_manager \<Rightarrow> api_key_manager" where
  "run_ops p [] m = m"
| "run_ops p (x # xs) m = run_ops p xs (apply_op p x m)"

text \<open>
  The same sequence with the keys that callers hold written down beside the manager, which
  does not record them. A caller releases, quarantines or retires only a key it holds;
  \<open>None\<close> is a sequence in which some caller does otherwise.
\<close>

fun held_step ::
  "provider \<Rightarrow> pool_op \<Rightarrow> api_key_manager \<times> key list \<Rightarrow> (api_key_manager \<times> key list) option" where
  "held_step p Acquire (m, held) =
     (case get_key m p [] of
        (Inr (Some k), m', _) \<Rightarrow> Some (m', k # held)
      | (_, m', _) \<Rightarrow> Some (m', held))"
| "held_step p (Release k) (m, held) =
     (if k \<in> set held then Some (release_key m p k, remove1 k held) else None)"
| "held_step p (Quarantine k why duration now) (m, held) =
     (if k \<in> set held then Some (quarantine_key m p k why duration now, remove1 k held)
      else None)"
| "held_step p (Retire k why) (m, held) =
     (if k \<in> set held then Some (retire_key m p k why, remove1 k held) else None)"
| "held_step p (Sweep now) (m, held) = Some (check_quarantine_once now m, held)"

fun held_run ::
  "provider \<Rightarrow> pool_op list \<Rightarrow> api_key_manager \<times> key list \<Rightarrow> (api_key_manager \<times> key list) option" where
  "held_run p [] s = Some s"
| "held_run p (x # xs) s = (case held_step p x s of None \<Rightarrow> None | Some s' \<Rightarrow> held_run p xs s')"

definition quarantines :: "key \<Rightarrow> pool_op \<Rightarrow> bool" where
  "quarantines k x = (case x of Quarantine k' _ _ _ \<Rightarrow> k' = k | _ \<Rightarrow> False)"

text \<open>
  The accounting of a pool that was loaded with \<open>n\<close> keys, \<open>held\<close> being the keys that
  callers have acquired and not yet given back.
\<close>

definition pool_inv :: "nat \<Rightarrow> pool \<Rightarrow> key list \<Rightarrow> bool" where
  "pool_inv n pl held =
     (distinct (available pl @ map fst (quarantined pl) @ held @ map fst (retired pl))
      \<and> int (length (available pl)) + int (length (quarantined pl)) + int (length held)
          = total_keys pl
      \<and> total_keys pl + int (length (retired pl)) = int n)"

definition manager_inv :: "nat \<Rightarrow> provider \<Rightarrow> api_key_manager \<times> key list \<Rightarrow> bool" where
  "manager_inv n p s =
     (case pools (fst s) p of None \<Rightarrow> False | Some pl \<Rightarrow> pool_inv n pl (snd s))"

definition retired_out :: "key \<Rightarrow> provider \<Rightarrow> api_key_manager \<Rightarrow> bool" where
  "retired_out k p m =
     (case pools m p of
        None \<Rightarrow> False
      | Some pl \<Rightarrow>
          k \<notin> set (available pl) \<and> \<not> dict_in k (quarantined pl) \<and> dict_in k (retired pl))"

section \<open>Router: the chain of a request (core/api/services.py, core/api/routes/chat.py)\<close>

text \<open>
  Python's \<^verbatim>\<open>xs[:n]\<close>, \<^verbatim>\<open>xs[n:]\<close> and \<^verbatim>\<open>xs[i]\<close> for an int that may be negative, and
  \<^verbatim>\<open>deque.rotate(-r)\<close>, which moves the first \<open>r\<close> elements to the end and leaves an empty
  deque alone.
\<close>

definition slice_to :: "int \<Rightarrow> 'a list \<Rightarrow> 'a list" where
  "slice_to n xs = (if 0 \<le> n then take (nat n) xs else take (length xs - nat (- n)) xs)"

definition slice_from :: "int \<Rightarrow> 'a list \<Rightarrow> 'a list" where
  "slice_from n xs = (if 0 \<le> n then drop (nat n) xs else drop (length xs - nat (- n)) xs)"

definition getitem :: "'a list \<Rightarrow> int \<Rightarrow> 'a option" where
  "getitem xs i =
     (if 0 \<le> i \<and> i < int (length xs) then Some (xs ! nat i)
      else if i < 0 \<and> - int (length xs) \<le> i then Some (xs ! nat (int (length xs) + i))
      else None)"

definition rotate_left :: "int \<Rightarrow> 'a list \<Rightarrow> 'a list" where
  "rotate_left r xs = (if xs = [] then [] else rotate (nat (r mod int (length xs))) xs)"

datatype route_error = AliasNotFound | IndexError

text \<open>
  The entry of an alias in \<^verbatim>\<open>agent_metadata\<close>: \<open>None\<close> when the alias has none,
  \<open>Some None\<close> when the entry has no \<^verbatim>\<open>main_length\<close>, \<open>Some (Some M)\<close> otherwise. The chain of
  an alias is \<open>None\<close> when \<^verbatim>\<open>model_group_alias\<close> does not have it.

  \<open>route_request_chain\<close> is the head of \<^verbatim>\<open>route_request\<close>: the chain its loop iterates.
\<close>

definition route_request_chain ::
  "rotation_manager \<Rightarrow> redis option \<Rightarrow> string \<Rightarrow> string list option \<Rightarrow> int option option
     \<Rightarrow> route_error + (string list \<times> rotation_manager \<times> redis option)" where
  "route_request_chain rm redis_client requested_alias chain metadata =
     (case chain of
        None \<Rightarrow> Inl AliasNotFound
      | Some priority_chain \<Rightarrow>
          if priority_chain = [] then Inl AliasNotFound
          else
            (case metadata of
               Some (Some pool_size) \<Rightarrow>
                 (case get_rotation_index rm requested_alias pool_size redis_client of
                    (start_index, rm', rc') \<Rightarrow>
                      if pool_size \<le> int (length priority_chain) then
                        (let main_pool = slice_to pool_size priority_chain;
                             fallbacks = slice_from pool_size priority_chain
                         in if start_index < int (length main_pool) then
                              (case getitem main_pool start_index of
                                 None \<Rightarrow> Inl IndexError
                               | Some selected_model \<Rightarrow> Inr ([selected_model] @ fallbacks, rm', rc'))
                            else Inr (priority_chain, rm', rc'))
                      else Inr (priority_chain, rm', rc'))
             | _ \<Rightarrow> Inr (priority_chain, rm, redis_client)))"

text \<open>
  \<open>dispatch_chain\<close> is the head of \<^verbatim>\<open>handle_unified_chat_completions\<close>: the chain handed to
  \<^verbatim>\<open>StreamingManager\<close> when the request is an agent request. It asks the in-process rotation
  counter only.
\<close>

definition dispatch_chain ::
  "rotation_manager \<Rightarrow> string \<Rightarrow> string list option \<Rightarrow> int option option
     \<Rightarrow> route_error + (string list \<times> rotation_manager)" where
  "dispatch_chain rm requested_alias chain metadata =
     (case chain of
        None \<Rightarrow> Inl AliasNotFound
      | Some priority_chain \<Rightarrow>
          if priority_chain = [] then Inl AliasNotFound
          else
            (case metadata of
               None \<Rightarrow> Inr (priority_chain, rm)
             | Some meta \<Rightarrow>
                 (let main_length = (case meta of None \<Rightarrow> 0 | Some m \<Rightarrow> m)
                  in if 1 < main_length then
                       (case get_rotation_index rm requested_alias main_length None of
                          (rotation_index, rm', _) \<Rightarrow>
                            Inr (rotate_left rotation_index (slice_to main_length priority_chain)
                                   @ slice_from main_length priority_chain, rm'))
                     else Inr (priority_chain, rm))))"

section \<open>Execution engine (core/api/services.py)\<close>

text \<open>
  What a provider adapter does when it is called with a key: a unary call returns a result
  or raises; a streaming call yields chunks and then ends or raises. The adapters raise
  \<^verbatim>\<open>httpx.HTTPStatusError\<close> (with the status code, the text that
  \<^verbatim>\<open>parse_error_message\<close> reads from it and its \<^verbatim>\<open>str(e)\<close>), \<^verbatim>\<open>LLMBadRequestError\<close>,
  \<^verbatim>\<open>asyncio.CancelledError\<close> (not an \<^verbatim>\<open>Exception\<close>) or any other exception (with its
  \<^verbatim>\<open>str(e)\<close>). The adapter of a profile is a function of the attempt number and the key.
\<close>

type_synonym chunk = string

datatype fault =
    HTTPStatusError int string string
  | LLMBadRequestError
  | CancelledError
  | OtherError string

datatype exn =
    ProviderUnavailableError
  | GetKeyTimeout
  | Raised fault
  | HTTPException int
  | UncaughtTypeError

text \<open>
  The reason that the engine gives for retiring or quarantining a key,
  \<^verbatim>\<open>f"HTTP {status_code}: {error_message}"\<close>, with the decimal digits of the code.
\<close>

fun str_nat :: "nat \<Rightarrow> string" where
  "str_nat n =
     (if n < 10 then [char_of (48 + n)]
      else str_nat (n div 10) @ [char_of (48 + n mod 10)])"

declare str_nat.simps [simp del]

definition str_int :: "int \<Rightarrow> string" where
  "str_int i = (if i < 0 then ''-'' @ str_nat (nat (- i)) else str_nat (nat i))"

definition http_reason :: "int \<Rightarrow> string \<Rightarrow> string" where
  "http_reason code error_message = ''HTTP '' @ str_int code @ '': '' @ error_message"

datatype 'r reply = Reply 'r | Fault fault

datatype stream_reply = Stream "chunk list" "fault option"

definition max_attempts :: "api_key_manager \<Rightarrow> provider \<Rightarrow> nat" where
  "max_attempts m provider =
     (if startswith provider ''local'' then 1
      else nat ((case get_full_status m provider of
                   None \<Rightarrow> 0
                 | Some (a, q, r, n_total) \<Rightarrow> n_total) + 1))"

text \<open>
  The non-streaming loop of \<^verbatim>\<open>_handle_request_execution\<close>: \<open>n\<close> attempts are left and
  \<open>attempt\<close> is the loop variable. A \<^verbatim>\<open>None\<close> key makes \<^verbatim>\<open>api_key[:4]\<close> raise a
  \<^verbatim>\<open>TypeError\<close>, which the last handler takes with nothing to release.
\<close>

fun unary_loop ::
  "nat \<Rightarrow> nat \<Rightarrow> provider \<Rightarrow> (nat \<Rightarrow> key \<Rightarrow> 'r reply) \<Rightarrow> int \<Rightarrow> api_key_manager
     \<Rightarrow> (exn + 'r) \<times> api_key_manager" where
  "unary_loop 0 attempt provider proxy now m = (Inl ProviderUnavailableError, m)"
| "unary_loop (Suc n) attempt provider proxy now m =
     (case get_key m provider [] of
        (Inl GetKeyTimeoutError, m1, _) \<Rightarrow> unary_loop n (Suc attempt) provider proxy now m1
      | (Inr None, m1, _) \<Rightarrow> unary_loop n (Suc attempt) provider proxy now m1
      | (Inr (Some k), m1, _) \<Rightarrow>
          (case proxy attempt k of
             Reply r \<Rightarrow> (Inr r, release_key m1 provider k)
           | Fault (HTTPStatusError code msg detail) \<Rightarrow>
               if code = 401 \<or> code = 403 then
                 unary_loop n (Suc attempt) provider proxy now
                   (retire_key m1 provider k (http_reason code msg))
               else if code = 429 then
                 (Inl ProviderUnavailableError,
                  quarantine_key m1 provider k (http_reason code msg)
                    QUARANTINE_DURATION_SECONDS now)
               else if code = 500 \<or> code = 502 \<or> code = 503 \<or> code = 504 then
                 unary_loop n (Suc attempt) provider proxy now
                   (quarantine_key m1 provider k (http_reason code msg)
                      QUARANTINE_DURATION_SECONDS now)
               else
                 unary_loop n (Suc attempt) provider proxy now (release_key m1 provider k)
           | Fault CancelledError \<Rightarrow> (Inl (Raised CancelledError), m1)
           | Fault _ \<Rightarrow>
               unary_loop n (Suc attempt) provider proxy now
                 (if k \<noteq> [] then release_key m1 provider k else m1)))"

text \<open>
  \<^verbatim>\<open>rotation_aware_stream_wrapper\<close>: the chunks the generator yields and how it ends
  (\<open>None\<close> when it returns).
\<close>

fun stream_loop ::
  "nat \<Rightarrow> nat \<Rightarrow> provider \<Rightarrow> (nat \<Rightarrow> key \<Rightarrow> stream_reply) \<Rightarrow> int \<Rightarrow> api_key_manager
     \<Rightarrow> (chunk list \<times> exn option) \<times> api_key_manager" where
  "stream_loop 0 attempt provider proxy now m = (([], Some ProviderUnavailableError), m)"
| "stream_loop (Suc n) attempt provider proxy now m =
     (case get_key m provider [] of
        (Inl GetKeyTimeoutError, m1, _) \<Rightarrow> stream_loop n (Suc attempt) provider proxy now m1
      | (Inr None, m1, _) \<Rightarrow> stream_loop n (Suc attempt) provider proxy now m1
      | (Inr (Some k), m1, _) \<Rightarrow>
          (case proxy attempt k of
             Stream chunks None \<Rightarrow> ((chunks, None), release_key m1 provider k)
           | Stream chunks (Some CancelledError) \<Rightarrow> ((chunks, Some (Raised CancelledError)), m1)
           | Stream chunks (Some (HTTPStatusError code msg detail)) \<Rightarrow>
               (let stream_started = (chunks \<noteq> []);
                    e = HTTPStatusError code msg detail
                in if k \<noteq> [] \<and> code = 429 then
                     ((chunks, Some (if \<not> stream_started then ProviderUnavailableError
                                     else Raised e)),
                      quarantine_key m1 provider k (http_reason code msg)
                        QUARANTINE_DURATION_SECONDS now)
                   else
                     (let m2 =
                        (if k = [] then m1
                         else if code = 401 \<or> code = 403 then
                           retire_key m1 provider k (http_reason code msg)
                         else if 500 \<le> code then
                           quarantine_key m1 provider k (http_reason code msg)
                             QUARANTINE_DURATION_SECONDS now
                         else release_key m1 provider k)
                      in if stream_started then ((chunks, Some (Raised e)), m2)
                         else stream_loop n (Suc attempt) provider proxy now m2))
           | Stream chunks (Some e) \<Rightarrow>
               (let m2 = (if k \<noteq> [] then release_key m1 provider k else m1)
                in if chunks \<noteq> [] then ((chunks, Some (Raised e)), m2)
                   else stream_loop n (Suc attempt) provider proxy now m2)))"

text \<open>
  \<^verbatim>\<open>execute_request_with_key_rotation\<close> and
  \<^verbatim>\<open>execute_streaming_request_with_key_rotation\<close>. A user who brought a key for the provider
  gets one call with that key and no pool; the choice of the concrete model
  (\<^verbatim>\<open>get_next_model\<close>) changes the request only and is left out.
\<close>

definition execute_request_with_key_rotation ::
  "provider \<Rightarrow> (nat \<Rightarrow> key \<Rightarrow> 'r reply) \<Rightarrow> key option \<Rightarrow> int \<Rightarrow> api_key_manager
     \<Rightarrow> (exn + 'r) \<times> api_key_manager" where
  "execute_request_with_key_rotation provider proxy user_key now m =
     (case (case user_key of None \<Rightarrow> None | Some uk \<Rightarrow> if uk = [] then None else Some uk) of
        Some uk \<Rightarrow>
          (case proxy 0 uk of
             Reply r \<Rightarrow> (Inr r, m)
           | Fault CancelledError \<Rightarrow> (Inl (Raised CancelledError), m)
           | Fault _ \<Rightarrow> (Inl ProviderUnavailableError, m))
      | None \<Rightarrow> unary_loop (max_attempts m provider) 0 provider proxy now m)"

definition execute_streaming_request_with_key_rotation ::
  "provider \<Rightarrow> (nat \<Rightarrow> key \<Rightarrow> stream_reply) \<Rightarrow> key option \<Rightarrow> int \<Rightarrow> api_key_manager
     \<Rightarrow> (chunk list \<times> exn option) \<times> api_key_manager" where
  "execute_streaming_request_with_key_rotation provider proxy user_key now m =
     (case (case user_key of None \<Rightarrow> None | Some uk \<Rightarrow> if uk = [] then None else Some uk) of
        Some uk \<Rightarrow>
          (case proxy 0 uk of
             Stream chunks ending \<Rightarrow> ((chunks, map_option Raised ending), m))
      | None \<Rightarrow> stream_loop (max_attempts m provider) 0 provider proxy now m)"

text \<open>
  The loop of \<^verbatim>\<open>route_request\<close> for a streaming request. The configuration gives the
  provider of a profile name (\<^verbatim>\<open>get_model_config_by_name\<close>) and says which providers have a
  proxy function. What the client gets is the generator returned, with the profile that
  feeds it, or the exception that leaves \<^verbatim>\<open>route_request\<close>.
\<close>

datatype response =
    Streamed string "chunk list" "exn option"
  | Failed exn

fun route_stream ::
  "(string \<rightharpoonup> provider) \<Rightarrow> (provider \<Rightarrow> bool) \<Rightarrow> (string \<Rightarrow> nat \<Rightarrow> key \<Rightarrow> stream_reply)
     \<Rightarrow> (provider \<rightharpoonup> key) \<Rightarrow> int \<Rightarrow> string list \<Rightarrow> api_key_manager
     \<Rightarrow> response \<times> api_key_manager" where
  "route_stream cfg provider_map proxy user_keys now [] m = (Failed (HTTPException 503), m)"
| "route_stream cfg provider_map proxy user_keys now (internal_model_name # rest) m =
     (case cfg internal_model_name of
        None \<Rightarrow> route_stream cfg provider_map proxy user_keys now rest m
      | Some provider \<Rightarrow>
          if \<not> provider_map provider then
            route_stream cfg provider_map proxy user_keys now rest m
          else
            (case execute_streaming_request_with_key_rotation provider
                    (proxy internal_model_name) (user_keys provider) now m of
               (([], None), m') \<Rightarrow> (Streamed internal_model_name [] None, m')
             | (([], Some (Raised CancelledError)), m') \<Rightarrow>
                 (Failed (Raised CancelledError), m')
             | (([], Some e), m') \<Rightarrow>
                 route_stream cfg provider_map proxy user_keys now rest m'
             | ((first_chunk # remaining, ending), m') \<Rightarrow>
                 (Streamed internal_model_name
                    ((if first_chunk \<noteq> [] then [first_chunk] else []) @ remaining) ending, m')))"


section \<open>The LLM step of the agent engine (core/engine/manager.py)\<close>

text \<open>
  The system-key loop of \<^verbatim>\<open>StreamingManager._execute_llm_step\<close> for one profile:
  \<open>emitted\<close> is what the generator has yielded so far. It finishes, ends in an exception,
  or leaves the profile for the next one of the chain with the error it remembers.
\<close>

datatype step_result =
    Finished "chunk list"
  | Aborted "chunk list" exn
  | NextProfile "chunk list" exn

fun llm_key_loop ::
  "nat \<Rightarrow> nat \<Rightarrow> provider \<Rightarrow> (nat \<Rightarrow> key \<Rightarrow> stream_reply) \<Rightarrow> int \<Rightarrow> api_key_manager
     \<Rightarrow> chunk list \<Rightarrow> exn \<Rightarrow> step_result \<times> api_key_manager" where
  "llm_key_loop 0 attempt provider proxy now m emitted last_error =
     (NextProfile emitted last_error, m)"
| "llm_key_loop (Suc n) attempt provider proxy now m emitted last_error =
     (case get_key m provider [] of
        (Inl GetKeyTimeoutError, m1, _) \<Rightarrow> (Aborted emitted GetKeyTimeout, m1)
      | (Inr None, m1, _) \<Rightarrow> (NextProfile emitted ProviderUnavailableError, m1)
      | (Inr (Some k), m1, _) \<Rightarrow>
          if k = [] then (NextProfile emitted ProviderUnavailableError, m1)
          else
            (case proxy attempt k of
               Stream chunks None \<Rightarrow> (Finished (emitted @ chunks), release_key m1 provider k)
             | Stream chunks (Some (HTTPStatusError code msg detail)) \<Rightarrow>
                 if code = 400 then
                   (Aborted (emitted @ chunks) (Raised LLMBadRequestError),
                    release_key m1 provider k)
                 else
                   llm_key_loop n (Suc attempt) provider proxy now
                     (quarantine_key m1 provider k detail QUARANTINE_DURATION_SECONDS now)
                     (emitted @ chunks) (Raised (HTTPStatusError code msg detail))
             | Stream chunks (Some CancelledError) \<Rightarrow>
                 (Aborted (emitted @ chunks) (Raised CancelledError), release_key m1 provider k)
             | Stream chunks (Some LLMBadRequestError) \<Rightarrow>
                 (Aborted (emitted @ chunks) (Raised LLMBadRequestError),
                  release_key m1 provider k)
             | Stream chunks (Some (OtherError detail)) \<Rightarrow>
                 llm_key_loop n (Suc attempt) provider proxy now
                   (quarantine_key m1 provider k detail QUARANTINE_DURATION_SECONDS now)
                   (emitted @ chunks) (Raised (OtherError detail))))"

text \<open>
  The chain loop of \<^verbatim>\<open>_execute_llm_step\<close>: a profile that has no usable configuration,
  provider function or reasoning pattern is skipped; a user who brought a key for the
  provider gets one call with it.
\<close>

fun execute_llm_step ::
  "(string \<rightharpoonup> provider) \<Rightarrow> (provider \<Rightarrow> bool) \<Rightarrow> (string \<Rightarrow> nat \<Rightarrow> key \<Rightarrow> stream_reply)
     \<Rightarrow> (provider \<rightharpoonup> key) \<Rightarrow> int \<Rightarrow> string list \<Rightarrow> api_key_manager \<Rightarrow> chunk list
     \<Rightarrow> (chunk list \<times> exn option) \<times> api_key_manager" where
  "execute_llm_step cfg provider_map proxy user_keys now [] m emitted =
     ((emitted, Some ProviderUnavailableError), m)"
| "execute_llm_step cfg provider_map proxy user_keys now (model_name # rest) m emitted =
     (case cfg model_name of
        None \<Rightarrow> execute_llm_step cfg provider_map proxy user_keys now rest m emitted
      | Some provider \<Rightarrow>
          if \<not> provider_map provider then
            execute_llm_step cfg provider_map proxy user_keys now rest m emitted
          else
            (case (case user_keys provider of
                     None \<Rightarrow> None
                   | Some uk \<Rightarrow> if uk = [] then None else Some uk) of
               Some uk \<Rightarrow>
                 (case proxy model_name 0 uk of
                    Stream chunks None \<Rightarrow> ((emitted @ chunks, None), m)
                  | Stream chunks (Some (HTTPStatusError code msg detail)) \<Rightarrow>
                      if code = 400 then ((emitted @ chunks, Some (Raised LLMBadRequestError)), m)
                      else execute_llm_step cfg provider_map proxy user_keys now rest m
                             (emitted @ chunks)
                  | Stream chunks (Some CancelledError) \<Rightarrow>
                      ((emitted @ chunks, Some (Raised CancelledError)), m)
                  | Stream chunks (Some e) \<Rightarrow>
                      execute_llm_step cfg provider_map proxy user_keys now rest m
                        (emitted @ chunks))
             | None \<Rightarrow>
                 (case llm_key_loop 3 0 provider (proxy model_name) now m emitted
                         ProviderUnavailableError of
                    (Finished chunks, m') \<Rightarrow> ((chunks, None), m')
                  | (Aborted chunks e, m') \<Rightarrow> ((chunks, Some e), m')
                  | (NextProfile chunks e, m') \<Rightarrow>
                      execute_llm_step cfg provider_map proxy user_keys now rest m' chunks)))"

section \<open>Message normalization (core/providers/utils/normalization.py)\<close>

text \<open>
  Strings are lists of code points below 256. \<^verbatim>\<open>str.strip()\<close> removes the characters that
  \<^verbatim>\<open>str.isspace\<close> accepts from both ends: in this range the code points 9 to 13, 28 to 32,
  133 and 160.
\<close>

definition is_space :: "char \<Rightarrow> bool" where
  "is_space c =
     (let n = (of_char c :: nat)
      in (9 \<le> n \<and> n \<le> 13) \<or> (28 \<le> n \<and> n \<le> 32) \<or> n = 133 \<or> n = 160)"

definition strip :: "string \<Rightarrow> string" where
  "strip s = rev (dropWhile is_space (rev (dropWhile is_space s)))"

text \<open>
  A message is a dict: its \<^verbatim>\<open>role\<close> (a str, or absent), its \<^verbatim>\<open>content\<close> (\<open>None\<close> when the
  key is absent or holds \<^verbatim>\<open>None\<close>) and its other items. A content is a str, a list of parts
  or some other value. A part of a list is a dict with its \<^verbatim>\<open>type\<close> and \<^verbatim>\<open>text\<close> (strs, or
  absent) and its other items, or something that is not a dict.
\<close>

datatype 'x part =
    Part (ptype: "string option") (ptext: "string option") (prest: "'x list")
  | NotDict 'x

datatype 'x content =
    CStr string
  | CList "'x part list"
  | COther 'x

record 'x message =
  role :: "string option"
  content :: "'x content option"
  extras :: "'x list"

datatype norm_error = KeyError | AttributeError

definition to_content_list :: "'x content option \<Rightarrow> 'x part list" where
  "to_content_list c =
     (case c of
        Some (CStr s) \<Rightarrow> [Part (Some ''text'') (Some s) []]
      | Some (CList ps) \<Rightarrow> ps
      | _ \<Rightarrow> [])"

definition newline :: string where
  "newline = [CHR 0x0A]"

definition merge_contents :: "'x content option \<Rightarrow> 'x content option \<Rightarrow> norm_error + 'x content" where
  "merge_contents content_a content_b =
     (case (content_a, content_b) of
        (Some (CStr a), Some (CStr b)) \<Rightarrow> Inr (CStr (a @ newline @ b))
      | _ \<Rightarrow>
          (let list_a = to_content_list content_a;
               list_b = to_content_list content_b
           in if list_a \<noteq> [] \<and> list_b \<noteq> [] then
                (case last list_a of
                   NotDict _ \<Rightarrow> Inl AttributeError
                 | Part type_a text_a _ \<Rightarrow>
                     if type_a = Some ''text'' then
                       (case hd list_b of
                          NotDict _ \<Rightarrow> Inl AttributeError
                        | Part type_b text_b _ \<Rightarrow>
                            if type_b = Some ''text'' then
                              (case (text_a, text_b) of
                                 (Some ta, Some tb) \<Rightarrow>
                                   Inr (CList (butlast list_a
                                          @ [Part (Some ''text'') (Some (ta @ newline @ tb)) []]
                                          @ tl list_b))
                               | _ \<Rightarrow> Inl KeyError)
                            else Inr (CList (list_a @ list_b)))
                     else Inr (CList (list_a @ list_b)))
              else Inr (CList (list_a @ list_b))))"

definition keeps :: "'x message \<Rightarrow> bool" where
  "keeps m =
     (case content m of
        None \<Rightarrow> False
      | Some (CStr s) \<Rightarrow> strip s \<noteq> []
      | Some _ \<Rightarrow> True)"

text \<open>
  The loop that merges consecutive messages of the same role; \<open>merged_messages\<close> is the
  list built so far.
\<close>

fun merge_loop :: "'x message list \<Rightarrow> 'x message list \<Rightarrow> norm_error + 'x message list" where
  "merge_loop merged_messages [] = Inr merged_messages"
| "merge_loop merged_messages (msg # rest) =
     (if merged_messages = [] then merge_loop [msg] rest
      else
        (let last_msg = last merged_messages
         in if role msg = role last_msg then
              (case merge_contents (content last_msg) (content msg) of
                 Inl e \<Rightarrow> Inl e
               | Inr c \<Rightarrow>
                   merge_loop (butlast merged_messages @ [last_msg\<lparr>content := Some c\<rparr>]) rest)
            else merge_loop (merged_messages @ [msg]) rest))"

definition normalize_for_openai :: "'x message list \<Rightarrow> norm_error + 'x message list" where
  "normalize_for_openai messages =
     (let cleaned_messages = filter keeps messages
      in if cleaned_messages = [] then Inr [] else merge_loop [] cleaned_messages)"

definition dummy_user :: "'x message" where
  "dummy_user = \<lparr>role = Some ''user'', content = Some (CStr ''...''), extras = []\<rparr>"

fun start_correction :: "bool \<Rightarrow> 'x message list \<Rightarrow> 'x message list" where
  "start_correction conversation_started [] = []"
| "start_correction conversation_started (msg # rest) =
     (if role msg = Some ''system'' then msg # start_correction conversation_started rest
      else
        (if \<not> conversation_started \<and> role msg = Some ''assistant'' then [dummy_user] else [])
        @ msg # start_correction True rest)"

definition normalize_for_gemini :: "'x message list \<Rightarrow> norm_error + 'x message list" where
  "normalize_for_gemini messages =
     (let cleaned_messages = filter keeps messages
      in if cleaned_messages = [] then Inr []
         else
           (case merge_loop [] cleaned_messages of
              Inl e \<Rightarrow> Inl e
            | Inr merged_messages \<Rightarrow> Inr (start_correction False merged_messages)))"

text \<open>Normalizing what a normalization returned; an exception of the first call ends both.\<close>

definition normalize_twice ::
  "('x message list \<Rightarrow> norm_error + 'x message list) \<Rightarrow> 'x message list
     \<Rightarrow> norm_error + 'x message list" where
  "normalize_twice f messages =
     (case f messages of Inl e \<Rightarrow> Inl e | Inr once \<Rightarrow> f once)"

section \<open>Response cache (core/common/cache\_validator.py, core/api/services.py)\<close>

text \<open>
  What \<^verbatim>\<open>json.loads\<close> returns: \<^verbatim>\<open>None\<close>, a bool, a number (with the three floats that are
  not numbers of the reals), a str, a list or a dict, given by its items. The parser itself
  belongs to the Python library: it is a parameter, \<open>None\<close> being \<^verbatim>\<open>JSONDecodeError\<close>.
\<close>

datatype json =
    JNull
  | JBool bool
  | JNumber real
  | JNaN
  | JInfinity
  | JNegInfinity
  | JString string
  | JArray "json list"
  | JObject "(string \<times> json) list"











section \<open>A small configuration to run the engine on\<close>

text \<open>
  The chain \<open>[P_Groq, P_Cerebras]\<close> of the end-to-end scenarios, each provider with one key.
\<close>

definition example_manager :: api_key_manager where
  "example_manager =
     \<lparr>pools = [''groq'' \<mapsto> load_keys [''gk-1''] [] [''gk-1''] init_provider_pool,
               ''cerebras'' \<mapsto> load_keys [''ck-1''] [] [''ck-1''] init_provider_pool],
      key_metadata = Map.empty\<rparr>"

definition example_manager_three_keys :: api_key_manager where
  "example_manager_three_keys =
     \<lparr>pools = [''groq'' \<mapsto> load_keys [''gk-1'', ''gk-2'', ''gk-3''] []
                            [''gk-1'', ''gk-2'', ''gk-3''] init_provider_pool,
               ''cerebras'' \<mapsto> load_keys [''ck-1''] [] [''ck-1''] init_provider_pool],
      key_metadata = Map.empty\<rparr>"

definition example_cfg :: "string \<rightharpoonup> provider" where
  "example_cfg = [''P_Groq'' \<mapsto> ''groq'', ''P_Cerebras'' \<mapsto> ''cerebras'']"

definition example_provider_map :: "provider \<Rightarrow> bool" where
  "example_provider_map p = (p = ''groq'' \<or> p = ''cerebras'')"

definition groq_429_on_connect :: "string \<Rightarrow> nat \<Rightarrow> key \<Rightarrow> stream_reply" where
  "groq_429_on_connect name attempt k =
     (if name = ''P_Groq'' then
        Stream [] (Some (HTTPStatusError 429 ''rate limit reached'' ''429 Too Many Requests''))
      else Stream [''Hel'', ''lo''] None)"

definition groq_reset_mid_stream :: "string \<Rightarrow> nat \<Rightarrow> key \<Rightarrow> stream_reply" where
  "groq_reset_mid_stream name attempt k =
     (if name = ''P_Groq'' then Stream [''Hel''] (Some (OtherError ''connection reset''))
      else Stream [''Hel'', ''lo''] None)"

definition bad_request_then_ok :: "nat \<Rightarrow> key \<Rightarrow> string reply" where
  "bad_request_then_ok attempt k =
     (if attempt = 0 then Fault (HTTPStatusError 400 ''bad request'' ''400 Bad Request'')
      else Reply ''ok'')"

definition stream_bad_request :: "nat \<Rightarrow> key \<Rightarrow> stream_reply" where
  "stream_bad_request attempt k =
     Stream [] (Some (HTTPStatusError 400 ''bad request'' ''400 Bad Request''))"












section \<open>Properties of the rotation index\<close>

subsection \<open>What the two backends return\<close>

lemma map_upt_Suc_shift: "map f [0..<Suc n] = f 0 # map (\<lambda>k. f (Suc k)) [0..<n]"
proof -
  have "[0..<Suc n] = 0 # map Suc [0..<n]"
    by (simp add: upt_conv_Cons map_Suc_upt del: upt_Suc)
  then show ?thesis
    by (simp add: o_def del: upt_Suc)
qed

lemma memory_queries:
  assumes "1 < M" and "0 \<le> memory_value rm a" and "memory_value rm a < M"
  shows "rotation_queries n rm a M None = map (\<lambda>k. (memory_value rm a + int k) mod M) [0..<n]"
  using assms
proof (induction n arbitrary: rm)
  case 0
  then show ?case by simp
next
  case (Suc n)
  let ?c = "memory_value rm a"
  let ?rm' = "rm\<lparr>agent_rotation_state := (agent_rotation_state rm)(a \<mapsto> (?c + 1) mod M)\<rparr>"
  have step: "get_rotation_index rm a M None = (?c, ?rm', None)"
    using Suc.prems(1)
    by (simp add: get_rotation_index_def memory_rotation_index_def memory_value_def Let_def)
  have v': "memory_value ?rm' a = (?c + 1) mod M"
    by (simp add: memory_value_def)
  have "rotation_queries n ?rm' a M None
          = map (\<lambda>k. (memory_value ?rm' a + int k) mod M) [0..<n]"
    proof (rule Suc.IH)
    show "1 < M" by (rule Suc.prems(1))
    show "0 \<le> memory_value ?rm' a" using Suc.prems(1) by (simp only: v') simp
    show "memory_value ?rm' a < M" using Suc.prems(1) by (simp only: v') simp
  qed
  then have tl: "rotation_queries n ?rm' a M None = map (\<lambda>k. (?c + 1 + int k) mod M) [0..<n]"
    by (simp only: v' mod_add_left_eq)
  have hd: "?c mod M = ?c"
    using Suc.prems by simp
  have "rotation_queries (Suc n) rm a M None = ?c # rotation_queries n ?rm' a M None"
    by (simp add: step)
  also have "\<dots> = ?c mod M # map (\<lambda>k. (?c + 1 + int k) mod M) [0..<n]"
    by (simp only: tl hd)
  also have "\<dots> = map (\<lambda>k. (?c + int k) mod M) [0..<Suc n]"
    unfolding map_upt_Suc_shift by (simp add: add.assoc add.commute add.left_commute)
  finally show ?case .
qed

lemma redis_queries:
  assumes "1 < M" and "redis_ready r a n"
  shows "rotation_queries n rm a M (Some r)
           = map (\<lambda>k. (redis_value r (rotation_key a) + 1 + int k) mod M) [0..<n]"
  using assms
proof (induction n arbitrary: r)
  case 0
  then show ?case by simp
next
  case (Suc n)
  let ?key = "rotation_key a"
  let ?c = "redis_value r ?key"
  let ?r' = "r\<lparr>counters := (counters r)(?key \<mapsto> ?c + 1)\<rparr>"
  have ok: "reachable r" and bound: "?c + int (Suc n) < 2 ^ 63"
    using Suc.prems(2) by (simp_all add: redis_ready_def)
  have incr: "redis_incr r ?key = Some (?c + 1, ?r')"
    using ok bound by (simp add: redis_incr_def)
  have step: "get_rotation_index rm a M (Some r) = ((?c + 1) mod M, rm, Some ?r')"
    using Suc.prems(1) by (simp add: get_rotation_index_def incr)
  have v': "redis_value ?r' ?key = ?c + 1"
    by (simp add: redis_value_def)
  have "redis_ready ?r' a n"
    using ok bound by (simp add: redis_ready_def v')
  then have tl: "rotation_queries n rm a M (Some ?r')
                   = map (\<lambda>k. (?c + 1 + 1 + int k) mod M) [0..<n]"
    using Suc.IH [OF Suc.prems(1), of ?r'] by (simp add: v')
  have "rotation_queries (Suc n) rm a M (Some r)
          = (?c + 1) mod M # rotation_queries n rm a M (Some ?r')"
    by (simp add: step)
  also have "\<dots> = (?c + 1) mod M # map (\<lambda>k. (?c + 1 + 1 + int k) mod M) [0..<n]"
    by (simp only: tl)
  also have "\<dots> = map (\<lambda>k. (?c + 1 + int k) mod M) [0..<Suc n]"
    unfolding map_upt_Suc_shift by (simp add: add.assoc add.commute add.left_commute)
  finally show ?case .
qed

subsection \<open>How often a slot is returned\<close>

lemma residue_hit:
  fixes M c j :: int
  assumes "1 < M" "0 \<le> j" "j < M"
  shows "((c + int N) mod M = j) = (Suc (N + nat M - 1 - nat ((j - c) mod M)) mod nat M = 0)"
proof -
  let ?x = "(j - c) mod M"
  let ?d = "nat ?x"
  have x: "0 \<le> ?x" "?x < M" using assms by simp_all
  then have d: "?d < nat M" by simp
  then have eq: "Suc (N + nat M - 1 - ?d) = N + (nat M - ?d)" by arith
  have "(Suc (N + nat M - 1 - ?d) mod nat M = 0) = (nat M dvd N + (nat M - ?d))"
    by (simp only: eq dvd_eq_mod_eq_0)
  also have "\<dots> = (int (nat M) dvd int (N + (nat M - ?d)))"
    by (simp only: int_dvd_int_iff)
  also have "int (N + (nat M - ?d)) = int N + (M - ?x)"
  proof -
    have "nat (M - ?x) = nat M - ?d"
      by (rule nat_diff_distrib') (use x assms in simp_all)
    moreover have "0 \<le> M - ?x" using x by simp
    ultimately show ?thesis using assms(1) by simp
  qed
  also have "int (nat M) = M" using assms by simp
  also have "int N + (M - ?x) = (int N - ?x) + M"
    by simp
  also have "(M dvd (int N - ?x) + M) = (M dvd int N - ?x)"
    by (rule dvd_add_triv_right_iff)
  also have "\<dots> = (int N mod M = ?x mod M)"
    by (simp only: mod_eq_dvd_iff)
  also have "\<dots> = (int N mod M = (j - c) mod M)"
    by simp
  also have "\<dots> = (M dvd int N - (j - c))"
    by (simp only: mod_eq_dvd_iff)
  also have "int N - (j - c) = (c + int N) - j" by simp
  also have "(M dvd (c + int N) - j) = ((c + int N) mod M = j mod M)"
    by (simp only: mod_eq_dvd_iff)
  also have "j mod M = j" using assms by simp
  finally show ?thesis by simp
qed

lemma count_residues:
  assumes "1 < M" "0 \<le> j" "j < M"
  shows "count_list (map (\<lambda>k. (c + int k) mod M) [0..<N]) j
           = (N + nat M - 1 - nat ((j - c) mod M)) div nat M"
proof (induction N)
  case 0
  have "nat ((j - c) mod M) < nat M" using assms by simp
  moreover have "0 \<le> (j - c) mod M" using assms by simp
  ultimately show ?case using assms by (simp add: div_eq_0_iff)
next
  case (Suc N)
  let ?d = "nat ((j - c) mod M)"
  have d: "?d < nat M" using assms by simp
  then have eq: "Suc N + nat M - 1 - ?d = Suc (N + nat M - 1 - ?d)" by arith
  show ?case
    unfolding eq
    using residue_hit [OF assms, of c N] Suc.IH
    by (simp add: div_Suc)
qed

lemma count_residues_bounds:
  assumes "1 < M" "0 \<le> j" "j < M"
  shows "N div nat M \<le> count_list (map (\<lambda>k. (c + int k) mod M) [0..<N]) j"
    and "count_list (map (\<lambda>k. (c + int k) mod M) [0..<N]) j \<le> (N + nat M - 1) div nat M"
proof -
  let ?d = "nat ((j - c) mod M)"
  have d: "?d < nat M" using assms by simp
  have lo: "N \<le> N + nat M - 1 - ?d" using d by arith
  have hi: "N + nat M - 1 - ?d \<le> N + nat M - 1" by arith
  show "N div nat M \<le> count_list (map (\<lambda>k. (c + int k) mod M) [0..<N]) j"
    unfolding count_residues [OF assms] by (rule div_le_mono [OF lo])
  show "count_list (map (\<lambda>k. (c + int k) mod M) [0..<N]) j \<le> (N + nat M - 1) div nat M"
    unfolding count_residues [OF assms] by (rule div_le_mono [OF hi])
qed

lemma memory_ready_value:
  "1 < M \<Longrightarrow> memory_ready rm a M \<Longrightarrow> 0 \<le> memory_value rm a \<and> memory_value rm a < M"
  by (simp add: memory_ready_def memory_value_def split: option.splits)

text \<open>
  Claim C7. For a pool of size \<open>M > 1\<close> and \<open>N\<close> successive rotation-index queries for one
  alias against one backend (the in-process counter holding a value below \<open>M\<close>, or a reachable
  durable counter that does not overflow), every slot \<open>j\<close> in \<open>[0, M)\<close> is returned at least
  \<open>\<lfloor>N/M\<rfloor>\<close> and at most \<open>\<lceil>N/M\<rceil>\<close> times.
\<close>

theorem rotation_slot_counts:
  assumes "1 < M" and "0 \<le> j" and "j < M"
    and "case rc of None \<Rightarrow> memory_ready rm a M | Some r \<Rightarrow> redis_ready r a N"
  shows "N div nat M \<le> count_list (rotation_queries N rm a M rc) j
       \<and> count_list (rotation_queries N rm a M rc) j \<le> (N + nat M - 1) div nat M"
proof (cases rc)
  case None
  then have "memory_ready rm a M" using assms(4) by simp
  then have v: "0 \<le> memory_value rm a" "memory_value rm a < M"
    using memory_ready_value [OF assms(1)] by simp_all
  show ?thesis
    unfolding None memory_queries [OF assms(1) v]
    using count_residues_bounds [OF assms(1-3)] by simp
next
  case (Some r)
  then have "redis_ready r a N" using assms(4) by simp
  then show ?thesis
    unfolding Some redis_queries [OF assms(1) \<open>redis_ready r a N\<close>]
    using count_residues_bounds [OF assms(1-3)] by simp
qed

theorem rotation_slot_counts_witness:
  "(1::int) < 3 \<and> (0::int) \<le> 1 \<and> (1::int) < 3
   \<and> memory_ready rotation_manager_init ''agent'' 3
   \<and> 7 div nat 3 \<le> count_list (rotation_queries 7 rotation_manager_init ''agent'' 3 None) 1
   \<and> count_list (rotation_queries 7 rotation_manager_init ''agent'' 3 None) 1
        \<le> (7 + nat 3 - 1) div nat 3"
proof -
  have h1: "(1::int) < 3" and h2: "(0::int) \<le> 1" by simp_all
  have h3: "case None of None \<Rightarrow> memory_ready rotation_manager_init ''agent'' 3
            | Some r \<Rightarrow> redis_ready r ''agent'' 7"
    by (simp add: memory_ready_def rotation_manager_init_def)
  have h4: "memory_ready rotation_manager_init ''agent'' 3"
    using h3 by simp
  show ?thesis
    using h1 h2 h4 rotation_slot_counts [OF h1 h2 h1 h3] by blast
qed

text \<open>
  Claim C6, as stated, fails: from their initial states the in-process backend answers
  \<open>0, 1, 2\<close> and the durable backend answers \<open>1, 2, 0\<close> for the same three calls.
\<close>

theorem backends_differ_counterexample:
  "rotation_queries 3 rotation_manager_init ''agent'' 3 None = [0, 1, 2]
   \<and> rotation_queries 3 rotation_manager_init ''agent'' 3 (Some redis_init) = [1, 2, 0]"
  by code_simp

text \<open>
  Claim C6, amended. From their initial states and for a pool of size \<open>M > 1\<close>, the in-process
  backend returns \<open>0, 1, 2, \<dots>\<close> modulo \<open>M\<close> and the durable backend returns
  \<open>1, 2, 3, \<dots>\<close> modulo \<open>M\<close>: both advance by one slot per call and skip none, and every
  durable index is the in-process index of the same call plus one, modulo \<open>M\<close>.
\<close>

theorem rotation_backends_shifted:
  assumes "1 < M" and "int n < 2 ^ 63"
  shows "rotation_queries n rotation_manager_init a M None = map (\<lambda>k. int k mod M) [0..<n]
       \<and> rotation_queries n rotation_manager_init a M (Some redis_init)
           = map (\<lambda>k. (int k + 1) mod M) [0..<n]
       \<and> rotation_queries n rotation_manager_init a M (Some redis_init)
           = map (\<lambda>i. (i + 1) mod M) (rotation_queries n rotation_manager_init a M None)"
proof -
  have v: "memory_value rotation_manager_init a = 0"
    by (simp add: memory_value_def rotation_manager_init_def)
  have m: "rotation_queries n rotation_manager_init a M None = map (\<lambda>k. int k mod M) [0..<n]"
    using memory_queries [of M rotation_manager_init a n] assms(1) by (simp add: v)
  have rv: "redis_value redis_init (rotation_key a) = 0"
    by (simp add: redis_value_def redis_init_def)
  have "redis_ready redis_init a n"
    using assms(2) by (simp add: redis_ready_def rv) (simp add: redis_init_def)
  then have r: "rotation_queries n rotation_manager_init a M (Some redis_init)
                 = map (\<lambda>k. (int k + 1) mod M) [0..<n]"
    using redis_queries [OF assms(1), of redis_init a n rotation_manager_init]
    by (simp add: rv add.commute)
  show ?thesis
    by (simp only: m r) (simp add: o_def mod_add_left_eq)
qed

theorem rotation_backends_shifted_witness:
  "(1::int) < 3 \<and> int 4 < 2 ^ 63
   \<and> rotation_queries 4 rotation_manager_init ''agent'' 3 None = map (\<lambda>k. int k mod 3) [0..<4]
   \<and> rotation_queries 4 rotation_manager_init ''agent'' 3 (Some redis_init)
       = map (\<lambda>k. (int k + 1) mod 3) [0..<4]
   \<and> rotation_queries 4 rotation_manager_init ''agent'' 3 (Some redis_init)
       = map (\<lambda>i. (i + 1) mod 3) (rotation_queries 4 rotation_manager_init ''agent'' 3 None)"
proof -
  have h1: "(1::int) < 3" by simp
  have h2: "int 4 < 2 ^ 63" by simp
  show ?thesis
    using h1 h2 rotation_backends_shifted [OF h1 h2, of "''agent''"] by blast
qed

section \<open>Properties of the router\<close>

text \<open>
  Claim C4, amended. For an alias with \<^verbatim>\<open>main_length\<close> \<open>M > 1\<close> whose chain has at least
  \<open>M\<close> entries: the chain that \<^verbatim>\<open>route_request\<close> iterates, with the rotation index \<open>i\<close> in
  \<open>[0, M)\<close> that it obtained, is the single entry \<open>main[i]\<close> followed by the fallbacks from
  position \<open>M\<close> on; the chain that the chat dispatcher hands to the agent engine, with the
  index \<open>i0\<close> that it obtained, is the main pool rotated left by \<open>i0\<close> followed by the
  fallbacks, so its head is \<open>main[i0]\<close> and the other main entries stay in it.
\<close>

theorem request_chain:
  assumes "1 < M" and "M \<le> int (length chain)"
    and "get_rotation_index rm a M rc = (i, rm', rc')"
    and "get_rotation_index rm a M None = (i0, rm0, rc0)"
    and "0 \<le> i" and "i < M" and "0 \<le> i0" and "i0 < M"
  shows "route_request_chain rm rc a (Some chain) (Some (Some M))
           = Inr ([chain ! nat i] @ drop (nat M) chain, rm', rc')
       \<and> dispatch_chain rm a (Some chain) (Some (Some M))
           = Inr (rotate (nat i0) (take (nat M) chain) @ drop (nat M) chain, rm0)
       \<and> hd (rotate (nat i0) (take (nat M) chain) @ drop (nat M) chain) = chain ! nat i0"
proof -
  have ne: "chain \<noteq> []" using assms(1,2) by auto
  have len: "length (take (nat M) chain) = nat M" using assms(1,2) by simp
  have m: "int (length (slice_to M chain)) = M" using assms(1,2) by (simp add: slice_to_def)
  have g: "getitem (slice_to M chain) i = Some (chain ! nat i)"
    using assms(1,2,5,6) by (simp add: getitem_def slice_to_def)
  have r: "route_request_chain rm rc a (Some chain) (Some (Some M))
           = Inr ([chain ! nat i] @ drop (nat M) chain, rm', rc')"
    using assms(1,2,6) ne
    by (simp add: route_request_chain_def assms(3) m g Let_def) (simp add: slice_from_def)
  have rl: "rotate_left i0 (slice_to M chain) = rotate (nat i0) (take (nat M) chain)"
    using assms(1,2,7,8) ne by (simp add: rotate_left_def slice_to_def)
  have d: "dispatch_chain rm a (Some chain) (Some (Some M))
           = Inr (rotate (nat i0) (take (nat M) chain) @ drop (nat M) chain, rm0)"
    using assms(1) ne
    by (simp add: dispatch_chain_def assms(4) rl Let_def) (simp add: slice_from_def)
  have lt: "nat i0 < length (take (nat M) chain)" using assms(7,8) len by simp
  then have tne: "take (nat M) chain \<noteq> []" by auto
  have "hd (rotate (nat i0) (take (nat M) chain))
          = take (nat M) chain ! (nat i0 mod length (take (nat M) chain))"
    by (rule hd_rotate_conv_nth [OF tne])
  also have "\<dots> = take (nat M) chain ! nat i0"
    using lt by (simp only: mod_less)
  also have "\<dots> = chain ! nat i0"
    using assms(7,8) by simp
  finally have h: "hd (rotate (nat i0) (take (nat M) chain)) = chain ! nat i0" .
  have rne: "rotate (nat i0) (take (nat M) chain) \<noteq> []"
    using tne by simp
  show ?thesis using r d h rne by simp
qed

theorem request_chain_witness:
  "(1::int) < 2 \<and> (2::int) \<le> int (length [''A'', ''B'', ''D''])
   \<and> get_rotation_index \<lparr>agent_rotation_state = [''agent'' \<mapsto> 1]\<rparr> ''agent'' 2 None
        = (1, \<lparr>agent_rotation_state = [''agent'' \<mapsto> 0]\<rparr>, None)
   \<and> route_request_chain \<lparr>agent_rotation_state = [''agent'' \<mapsto> 1]\<rparr> None ''agent''
          (Some [''A'', ''B'', ''D'']) (Some (Some 2))
        = Inr ([''B'', ''D''], \<lparr>agent_rotation_state = [''agent'' \<mapsto> 0]\<rparr>, None)
   \<and> dispatch_chain \<lparr>agent_rotation_state = [''agent'' \<mapsto> 1]\<rparr> ''agent''
          (Some [''A'', ''B'', ''D'']) (Some (Some 2))
        = Inr ([''B'', ''A'', ''D''], \<lparr>agent_rotation_state = [''agent'' \<mapsto> 0]\<rparr>)"
proof -
  have h1: "(1::int) < 2" by simp
  have h2: "(2::int) \<le> int (length [''A'', ''B'', ''D''])" by simp
  have h3: "get_rotation_index \<lparr>agent_rotation_state = [''agent'' \<mapsto> 1]\<rparr> ''agent'' 2 None
              = (1, \<lparr>agent_rotation_state = [''agent'' \<mapsto> 0]\<rparr>, None)"
    by (simp add: get_rotation_index_def memory_rotation_index_def)
  have h4: "(0::int) \<le> 1" by simp
  show ?thesis
    using h2 h3 request_chain [OF h1 h2 h3 h3 h4 h1 h4 h1]
    by (simp add: numeral_2_eq_2)
qed

text \<open>
  Claim C4, as stated, fails for an agent request: with chain \<open>[A, B, D]\<close>, \<open>M = 2\<close> and
  rotation index 1, the chain handed to the agent engine is \<open>[B, A, D]\<close>, not \<open>[B, D]\<close>.
\<close>

theorem agent_chain_counterexample:
  "fst (get_rotation_index \<lparr>agent_rotation_state = [''agent'' \<mapsto> 1]\<rparr> ''agent'' 2 None) = 1
   \<and> map_sum id fst
        (dispatch_chain \<lparr>agent_rotation_state = [''agent'' \<mapsto> 1]\<rparr> ''agent''
           (Some [''A'', ''B'', ''D'']) (Some (Some 2)))
       = Inr [''B'', ''A'', ''D'']
   \<and> map_sum id fst
        (dispatch_chain \<lparr>agent_rotation_state = [''agent'' \<mapsto> 1]\<rparr> ''agent''
           (Some [''A'', ''B'', ''D'']) (Some (Some 2)))
       \<noteq> Inr ([[''A'', ''B'', ''D''] ! 1] @ drop 2 [''A'', ''B'', ''D''])"
  by (simp add: dispatch_chain_def get_rotation_index_def memory_rotation_index_def
      rotate_left_def slice_to_def slice_from_def numeral_2_eq_2)

section \<open>Properties of the credential pool\<close>

lemma alist_update_fresh: "k \<notin> set (map fst d) \<Longrightarrow> AList.update k v d = d @ [(k, v)]"
  by (induction d) auto

lemma length_remove1_int:
  "k \<in> set held \<Longrightarrow> int (length (remove1 k held)) = int (length held) - 1"
proof -
  assume k: "k \<in> set held"
  then have "Suc 0 \<le> length held" by (cases held) auto
  then have "int (length held - Suc 0) = int (length held) - int (Suc 0)"
    by (rule of_nat_diff)
  then show ?thesis using k by (simp add: length_remove1)
qed

lemma pool_get_key_empty: "available pl = [] \<Longrightarrow> pool_get_key pl [] = (Inl GetKeyTimeoutError, pl, [])"
  by (subst pool_get_key.simps) simp

lemma pool_get_key_head:
  "available pl = k # q \<Longrightarrow> \<not> dict_in k (retired pl)
     \<Longrightarrow> pool_get_key pl arr = (Inr k, pl\<lparr>available := q\<rparr>, arr)"
  by (subst pool_get_key.simps) simp

lemma pool_get_key_inv:
  assumes "pool_inv n pl held"
  shows "case pool_get_key pl [] of
           (Inr k, pl', _) \<Rightarrow> pool_inv n pl' (k # held)
         | (Inl e, pl', _) \<Rightarrow> pool_inv n pl' held"
proof (cases "available pl")
  case Nil
  then show ?thesis using assms by (simp add: pool_get_key_empty)
next
  case (Cons k q)
  then have "\<not> dict_in k (retired pl)"
    using assms by (auto simp: pool_inv_def dict_in_def)
  then show ?thesis
    using assms Cons by (simp add: pool_get_key_head) (auto simp: pool_inv_def)
qed

lemma pool_release_key_inv:
  assumes "pool_inv n pl held" and "k \<in> set held"
  shows "pool_inv n (pool_release_key pl k) (remove1 k held)"
proof -
  have d: "distinct held" using assms(1) by (simp add: pool_inv_def)
  have "\<not> dict_in k (retired pl)" "\<not> dict_in k (quarantined pl)"
    using assms by (auto simp: pool_inv_def dict_in_def)
  moreover note length_remove1_int [OF assms(2)]
  ultimately show ?thesis
    using assms d by (auto simp: pool_inv_def pool_release_key_def set_remove1_eq)
qed

lemma pool_quarantine_key_inv:
  assumes "pool_inv n pl held" and "k \<in> set held"
  shows "pool_inv n (pool_quarantine_key pl k why duration now) (remove1 k held)"
proof -
  have d: "distinct held" using assms(1) by (simp add: pool_inv_def)
  have nq: "k \<notin> set (map fst (quarantined pl))"
    using assms by (auto simp: pool_inv_def)
  show ?thesis
    using assms d nq length_remove1_int [OF assms(2)]
    by (auto simp: pool_inv_def pool_quarantine_key_def alist_update_fresh set_remove1_eq)
qed

lemma pool_retire_key_inv:
  assumes "pool_inv n pl held" and "k \<in> set held"
  shows "pool_inv n (pool_retire_key pl k why) (remove1 k held)"
proof -
  have d: "distinct held" using assms(1) by (simp add: pool_inv_def)
  have nq: "k \<notin> set (map fst (quarantined pl))" and nr: "k \<notin> set (map fst (retired pl))"
    using assms by (auto simp: pool_inv_def)
  have l: "int (length (remove1 k held)) = int (length held) - 1" "1 \<le> int (length held)"
    using assms(2) length_remove1_int [OF assms(2)] by (cases held; auto)+
  then have "1 \<le> total_keys pl" using assms(1) by (simp add: pool_inv_def)
  then show ?thesis
    using assms d nq nr l
    by (auto simp: pool_inv_def pool_retire_key_def dict_in_def alist_update_fresh set_remove1_eq)
qed

lemma distinct_filter_split:
  "distinct (map fst q)
     \<Longrightarrow> distinct (map fst (filter P q) @ map fst (filter (\<lambda>x. \<not> P x) q))"
  by (induction q) (auto simp: image_iff)

lemma sweep_pool_inv:
  assumes "pool_inv n pl held"
  shows "pool_inv n (sweep_pool now pl) held"
proof -
  let ?P = "\<lambda>(k, d). end_time d \<le> now"
  let ?N = "\<lambda>(k, d). \<not> end_time d \<le> now"
  have N: "?N = (\<lambda>x. \<not> ?P x)" by auto
  have len: "length (filter ?P (quarantined pl)) + length (filter ?N (quarantined pl))
               = length (quarantined pl)"
    unfolding N by (rule sum_length_filter_compl)
  have dq: "distinct (map fst (quarantined pl))"
    using assms by (simp add: pool_inv_def)
  have ds: "distinct (map fst (filter ?P (quarantined pl)) @ map fst (filter ?N (quarantined pl)))"
    unfolding N by (rule distinct_filter_split [OF dq])
  show ?thesis
    using assms len ds
    by (auto simp: pool_inv_def sweep_pool_def Let_def)
qed

lemma held_step_inv:
  assumes "\<not> startswith p ''local''" and "manager_inv n p s" and "held_step p x s = Some s'"
  shows "manager_inv n p s'"
proof -
  obtain m held where s: "s = (m, held)" by (cases s)
  from assms(2) s obtain pl where pl: "pools m p = Some pl" and inv: "pool_inv n pl held"
    by (auto simp: manager_inv_def split: option.splits)
  show ?thesis
  proof (cases x)
    case Acquire
    obtain r pl' arr' where g: "pool_get_key pl [] = (r, pl', arr')"
      by (cases "pool_get_key pl []") auto
    have i: "case r of Inr k \<Rightarrow> pool_inv n pl' (k # held) | Inl e \<Rightarrow> pool_inv n pl' held"
      using pool_get_key_inv [OF inv] by (simp add: g split: sum.splits)
    show ?thesis
    proof (cases r)
      case (Inl e)
      then have "s' = (m\<lparr>pools := (pools m)(p \<mapsto> pl')\<rparr>, held)"
        using assms(1,3) pl by (simp add: s Acquire g get_key_def)
      then show ?thesis using i Inl by (simp add: manager_inv_def)
    next
      case (Inr k)
      then have "s' = (m\<lparr>pools := (pools m)(p \<mapsto> pl')\<rparr>, k # held)"
        using assms(1,3) pl by (simp add: s Acquire g get_key_def)
      then show ?thesis using i Inr by (simp add: manager_inv_def)
    qed
  next
    case (Release k)
    then show ?thesis
      using assms(1,3) pl pool_release_key_inv [OF inv, of k]
      by (auto simp: s release_key_def manager_inv_def split: if_splits)
  next
    case (Quarantine k why duration now)
    then show ?thesis
      using assms(1,3) pl pool_quarantine_key_inv [OF inv, of k why duration now]
      by (auto simp: s quarantine_key_def ENABLE_QUARANTINE_def manager_inv_def split: if_splits)
  next
    case (Retire k why)
    then show ?thesis
      using assms(1,3) pl pool_retire_key_inv [OF inv, of k why]
      by (auto simp: s retire_key_def manager_inv_def split: if_splits)
  next
    case (Sweep now)
    then show ?thesis
      using assms(1,3) pl inv sweep_pool_inv [OF inv, of now]
      by (auto simp: s check_quarantine_once_def manager_inv_def)
  qed
qed

lemma held_run_inv:
  assumes "\<not> startswith p ''local''"
  shows "manager_inv n p s \<Longrightarrow> held_run p ops s = Some s' \<Longrightarrow> manager_inv n p s'"
proof (induction ops arbitrary: s)
  case Nil
  then show ?case by simp
next
  case (Cons x xs)
  from Cons.prems(2) obtain s1 where s1: "held_step p x s = Some s1"
    and r: "held_run p xs s1 = Some s'"
    by (cases "held_step p x s") auto
  have "manager_inv n p s1"
    by (rule held_step_inv [OF assms Cons.prems(1) s1])
  then show ?case
    using r by (rule Cons.IH)
qed

lemma load_keys_inv:
  assumes "distinct (free @ paid)" and "mset shuffled = mset (free @ paid)"
  shows "pool_inv (length (free @ paid)) (load_keys free paid shuffled init_provider_pool) []"
proof -
  have "distinct shuffled"
    using assms mset_eq_imp_distinct_iff by blast
  moreover have "length shuffled = length (free @ paid)"
    using assms(2) by (rule mset_eq_length)
  ultimately show ?thesis
    by (simp add: pool_inv_def load_keys_def init_provider_pool_def)
qed

text \<open>
  Claim C2, amended. For a provider whose pool was loaded with distinct keys, after every
  sequence of acquisitions, releases, quarantines, retirements and sweeps in which callers
  give back only keys they hold, the number of available keys plus the number of
  quarantined keys plus the number of keys held by callers equals \<^verbatim>\<open>total_keys\<close>, and
  \<^verbatim>\<open>total_keys\<close> plus the number of retired keys equals the number of keys loaded.
\<close>

theorem pool_accounting:
  assumes "\<not> startswith p ''local''"
    and "distinct (free @ paid)" and "mset shuffled = mset (free @ paid)"
    and "pools m p = Some (load_keys free paid shuffled init_provider_pool)"
    and "held_run p ops (m, []) = Some (m', held)"
  shows "case pools m' p of
           None \<Rightarrow> False
         | Some pl \<Rightarrow>
             int (length (available pl)) + int (length (quarantined pl)) + int (length held)
               = total_keys pl
             \<and> total_keys pl + int (length (retired pl)) = int (length (free @ paid))"
proof -
  have "manager_inv (length (free @ paid)) p (m, [])"
    using load_keys_inv [OF assms(2,3)] assms(4) by (simp add: manager_inv_def)
  then have "manager_inv (length (free @ paid)) p (m', held)"
    using held_run_inv [OF assms(1)] assms(5) by blast
  then show ?thesis
    by (auto simp: manager_inv_def pool_inv_def split: option.splits)
qed

theorem pool_accounting_witness:
  "\<not> startswith ''groq'' ''local'' \<and> distinct ([''k1'', ''k2''] @ [])
   \<and> mset [''k2'', ''k1''] = mset ([''k1'', ''k2''] @ [])
   \<and> held_run ''groq'' [Acquire, Retire ''k2'' ''HTTP 401'']
         (\<lparr>pools = [''groq'' \<mapsto> load_keys [''k1'', ''k2''] [] [''k2'', ''k1''] init_provider_pool],
           key_metadata = Map.empty\<rparr>, [])
       = Some (\<lparr>pools = [''groq'' \<mapsto>
                   \<lparr>available = [''k1''], quarantined = [], retired = [(''k2'', ''HTTP 401'')],
                    total_keys = 1, free_keys = [''k1'', ''k2''], paid_keys = []\<rparr>],
                 key_metadata = Map.empty\<rparr>, [])
   \<and> get_full_status
         \<lparr>pools = [''groq'' \<mapsto>
                   \<lparr>available = [''k1''], quarantined = [], retired = [(''k2'', ''HTTP 401'')],
                    total_keys = 1, free_keys = [''k1'', ''k2''], paid_keys = []\<rparr>],
                 key_metadata = Map.empty\<rparr> ''groq''
       = Some (1, 0, 1, 1)"
proof -
  have h1: "\<not> startswith ''groq'' ''local''"
    by (simp add: startswith_def)
  have h2: "distinct ([''k1'', ''k2''] @ [])"
    by simp
  have h3: "mset [''k2'', ''k1''] = mset ([''k1'', ''k2''] @ [])"
    by (simp add: add_mset_commute)
  have h4: "pools \<lparr>pools = [''groq'' \<mapsto> load_keys [''k1'', ''k2''] [] [''k2'', ''k1''] init_provider_pool],
                  key_metadata = Map.empty\<rparr> ''groq''
              = Some (load_keys [''k1'', ''k2''] [] [''k2'', ''k1''] init_provider_pool)"
    by simp
  have h5: "held_run ''groq'' [Acquire, Retire ''k2'' ''HTTP 401'']
         (\<lparr>pools = [''groq'' \<mapsto> load_keys [''k1'', ''k2''] [] [''k2'', ''k1''] init_provider_pool],
           key_metadata = Map.empty\<rparr>, [])
       = Some (\<lparr>pools = [''groq'' \<mapsto>
                   \<lparr>available = [''k1''], quarantined = [], retired = [(''k2'', ''HTTP 401'')],
                    total_keys = 1, free_keys = [''k1'', ''k2''], paid_keys = []\<rparr>],
                 key_metadata = Map.empty\<rparr>, [])"
    by (simp add: startswith_def get_key_def pool_get_key.simps load_keys_def
        init_provider_pool_def dict_in_def retire_key_def pool_retire_key_def)
  show ?thesis
    using h1 h2 h3 h5 pool_accounting [OF h1 h2 h3 h4 h5]
    by (simp add: get_full_status_def)
qed

text \<open>
  Claim C2, as stated, fails: after one acquisition from a pool loaded with one key there is
  no available, quarantined or retired key, while \<^verbatim>\<open>total_keys\<close> is 1 and one key is held.
\<close>

theorem pool_accounting_counterexample:
  "held_run ''groq'' [Acquire]
         (\<lparr>pools = [''groq'' \<mapsto> load_keys [''k1''] [] [''k1''] init_provider_pool],
           key_metadata = Map.empty\<rparr>, [])
       = Some (\<lparr>pools = [''groq'' \<mapsto>
                   \<lparr>available = [], quarantined = [], retired = [],
                    total_keys = 1, free_keys = [''k1''], paid_keys = []\<rparr>],
                 key_metadata = Map.empty\<rparr>, [''k1''])
   \<and> int (length (available \<lparr>available = [], quarantined = [], retired = [],
                    total_keys = 1, free_keys = [''k1''], paid_keys = []\<rparr>))
     + int (length (quarantined \<lparr>available = [], quarantined = [], retired = [],
                    total_keys = 1, free_keys = [''k1''], paid_keys = []\<rparr>))
     + int (length (retired \<lparr>available = [], quarantined = [], retired = [],
                    total_keys = 1, free_keys = [''k1''], paid_keys = []\<rparr>))
     \<noteq> total_keys \<lparr>available = [], quarantined = [], retired = [],
                    total_keys = 1, free_keys = [''k1''], paid_keys = []\<rparr>
       + int (length [''k1''])"
  by (simp add: startswith_def get_key_def pool_get_key.simps load_keys_def
      init_provider_pool_def dict_in_def)

lemma queue_get_sub:
  "queue_get q arr = Some (k, q', arr')
     \<Longrightarrow> set q' \<subseteq> set q \<and> snd ` set arr' \<subseteq> snd ` set arr"
  by (cases q; cases arr) (auto split: if_splits)

lemma pool_get_key_fields:
  "pool_get_key pl arr = (r, pl', arr')
     \<Longrightarrow> quarantined pl' = quarantined pl \<and> retired pl' = retired pl
         \<and> set (available pl') \<subseteq> set (available pl) \<union> snd ` set arr"
proof (induction pl arr arbitrary: r pl' arr' rule: pool_get_key.induct)
  case (1 pl arr)
  show ?case
  proof (cases "queue_get (available pl) arr")
    case None
    then show ?thesis using "1.prems" by (simp add: pool_get_key.simps [of pl arr])
  next
    case (Some t)
    obtain k q a where t: "t = (k, q, a)" by (cases t)
    note sub = queue_get_sub [OF Some [unfolded t]]
    show ?thesis
    proof (cases "dict_in k (retired pl)")
      case True
      then have "pool_get_key (pl\<lparr>available := q\<rparr>) a = (r, pl', arr')"
        using "1.prems" Some t by (simp add: pool_get_key.simps [of pl arr])
      from "1.IH" [OF Some t [symmetric] refl True this]
      have "quarantined pl' = quarantined pl" "retired pl' = retired pl"
        "set (available pl') \<subseteq> set q \<union> snd ` set a"
        by simp_all
      then show ?thesis using sub by blast
    next
      case False
      then show ?thesis
        using "1.prems" Some t sub by (auto simp: pool_get_key.simps [of pl arr])
    qed
  qed
qed

lemma pool_get_key_out:
  assumes "k \<notin> set (available pl)" "\<not> dict_in k (quarantined pl)" "dict_in k (retired pl)"
    and "pool_get_key pl [] = (r, pl', arr')"
  shows "k \<notin> set (available pl') \<and> \<not> dict_in k (quarantined pl') \<and> dict_in k (retired pl')"
  using pool_get_key_fields [OF assms(4)] assms(1-3) by auto

lemma apply_op_retired_out:
  assumes "\<not> startswith p ''local''" and "retired_out k p m" and "\<not> quarantines k x"
  shows "retired_out k p (apply_op p x m)"
proof -
  from assms(2) obtain pl where pl: "pools m p = Some pl"
    and a: "k \<notin> set (available pl)" and q: "\<not> dict_in k (quarantined pl)"
    and r: "dict_in k (retired pl)"
    by (auto simp: retired_out_def split: option.splits)
  show ?thesis
  proof (cases x)
    case Acquire
    obtain res pl' arr' where g: "pool_get_key pl [] = (res, pl', arr')"
      by (cases "pool_get_key pl []") auto
    have "apply_op p x m = m\<lparr>pools := (pools m)(p \<mapsto> pl')\<rparr>"
      using assms(1) pl g by (cases res) (simp_all add: Acquire get_key_def)
    then show ?thesis
      using pool_get_key_out [OF a q r g] by (simp add: retired_out_def)
  next
    case (Release k')
    then show ?thesis
      using assms(1) pl a q r
      by (auto simp: release_key_def pool_release_key_def retired_out_def)
  next
    case (Quarantine k' why duration now)
    then have "k' \<noteq> k" using assms(3) by (simp add: quarantines_def)
    then show ?thesis
      using assms(1) pl a q r Quarantine
      by (auto simp: quarantine_key_def ENABLE_QUARANTINE_def pool_quarantine_key_def
          retired_out_def dict_in_def AList.dom_update)
  next
    case (Retire k' why)
    then show ?thesis
      using assms(1) pl a q r AList.dom_delete_subset [of k' "quarantined pl"]
      by (auto simp: retire_key_def pool_retire_key_def retired_out_def dict_in_def
          AList.dom_update)
  next
    case (Sweep now)
    then show ?thesis
      using assms(1) pl a q r
      by (auto simp: check_quarantine_once_def sweep_pool_def Let_def retired_out_def dict_in_def)
  qed
qed

lemma run_ops_retired_out:
  assumes "\<not> startswith p ''local''"
  shows "retired_out k p m \<Longrightarrow> \<forall>x \<in> set ops. \<not> quarantines k x
           \<Longrightarrow> retired_out k p (run_ops p ops m)"
proof (induction ops arbitrary: m)
  case Nil
  then show ?case by simp
next
  case (Cons x xs)
  have "retired_out k p (apply_op p x m)"
    using apply_op_retired_out [OF assms Cons.prems(1)] Cons.prems(2) by simp
  then show ?case
    using Cons.IH Cons.prems(2) by simp
qed

lemma retire_key_retired_out:
  assumes "\<not> startswith p ''local''" and "pools m p = Some pl" and "k \<notin> set (available pl)"
    and "\<not> dict_in k (retired pl)"
  shows "retired_out k p (retire_key m p k why)"
  using assms AList.delete_notin_dom [of k "quarantined pl"]
  by (auto simp: retire_key_def pool_retire_key_def retired_out_def dict_in_def AList.dom_update)

text \<open>
  Claim C3. Once \<^verbatim>\<open>retire_key\<close> has retired a key that was not in the available queue (a
  caller held it or it was quarantined), no later sequence of acquisitions, releases of any key, retirements and quarantine
  sweeps, nor the quarantining of other keys, puts it back into the available queue or into
  the quarantined map; it stays in \<^verbatim>\<open>retired\<close>.
\<close>

theorem retired_key_stays_out:
  assumes "\<not> startswith p ''local''" and "pools m p = Some pl"
    and "k \<notin> set (available pl)" and "\<not> dict_in k (retired pl)"
    and "\<forall>x \<in> set ops. \<not> quarantines k x"
  shows "case pools (run_ops p ops (retire_key m p k why)) p of
           None \<Rightarrow> False
         | Some pl' \<Rightarrow>
             k \<notin> set (available pl') \<and> \<not> dict_in k (quarantined pl')
             \<and> dict_in k (retired pl')"
  using run_ops_retired_out [OF assms(1) retire_key_retired_out [OF assms(1-4)] assms(5)]
  by (simp add: retired_out_def)

theorem retired_key_stays_out_witness:
  "\<not> startswith ''groq'' ''local''
   \<and> ''k1'' \<notin> set (available \<lparr>available = [''k2''],
               quarantined = [(''k3'', \<lparr>reason = ''HTTP 429'', end_time = 300\<rparr>)],
               retired = [], total_keys = 3, free_keys = [''k1'', ''k2'', ''k3''],
               paid_keys = []\<rparr>)
   \<and> \<not> dict_in ''k1'' (retired \<lparr>available = [''k2''],
               quarantined = [(''k3'', \<lparr>reason = ''HTTP 429'', end_time = 300\<rparr>)],
               retired = [], total_keys = 3, free_keys = [''k1'', ''k2'', ''k3''],
               paid_keys = []\<rparr>)
   \<and> get_full_status
         (run_ops ''groq'' [Release ''k1'', Acquire, Sweep 400, Release ''k2'', Acquire]
            (retire_key \<lparr>pools = [''groq'' \<mapsto>
              \<lparr>available = [''k2''],
               quarantined = [(''k3'', \<lparr>reason = ''HTTP 429'', end_time = 300\<rparr>)],
               retired = [], total_keys = 3, free_keys = [''k1'', ''k2'', ''k3''],
               paid_keys = []\<rparr>],
            key_metadata = Map.empty\<rparr> ''groq'' ''k1'' ''HTTP 401'')) ''groq''
       = Some (1, 0, 1, 2)
   \<and> (case pools (run_ops ''groq'' [Release ''k1'', Acquire, Sweep 400, Release ''k2'', Acquire]
            (retire_key \<lparr>pools = [''groq'' \<mapsto>
              \<lparr>available = [''k2''],
               quarantined = [(''k3'', \<lparr>reason = ''HTTP 429'', end_time = 300\<rparr>)],
               retired = [], total_keys = 3, free_keys = [''k1'', ''k2'', ''k3''],
               paid_keys = []\<rparr>],
            key_metadata = Map.empty\<rparr> ''groq'' ''k1'' ''HTTP 401'')) ''groq'' of
           None \<Rightarrow> False
         | Some pl' \<Rightarrow>
             ''k1'' \<notin> set (available pl') \<and> \<not> dict_in ''k1'' (quarantined pl')
             \<and> dict_in ''k1'' (retired pl'))"
proof -
  have h1: "\<not> startswith ''groq'' ''local''"
    by (simp add: startswith_def)
  have h2: "pools \<lparr>pools = [''groq'' \<mapsto>
              \<lparr>available = [''k2''],
               quarantined = [(''k3'', \<lparr>reason = ''HTTP 429'', end_time = 300\<rparr>)],
               retired = [], total_keys = 3, free_keys = [''k1'', ''k2'', ''k3''],
               paid_keys = []\<rparr>],
            key_metadata = Map.empty\<rparr> ''groq'' = Some \<lparr>available = [''k2''],
               quarantined = [(''k3'', \<lparr>reason = ''HTTP 429'', end_time = 300\<rparr>)],
               retired = [], total_keys = 3, free_keys = [''k1'', ''k2'', ''k3''],
               paid_keys = []\<rparr>"
    by simp
  have h3: "''k1'' \<notin> set (available \<lparr>available = [''k2''],
               quarantined = [(''k3'', \<lparr>reason = ''HTTP 429'', end_time = 300\<rparr>)],
               retired = [], total_keys = 3, free_keys = [''k1'', ''k2'', ''k3''],
               paid_keys = []\<rparr>)"
    by simp
  have h4: "\<not> dict_in ''k1'' (retired \<lparr>available = [''k2''],
               quarantined = [(''k3'', \<lparr>reason = ''HTTP 429'', end_time = 300\<rparr>)],
               retired = [], total_keys = 3, free_keys = [''k1'', ''k2'', ''k3''],
               paid_keys = []\<rparr>)"
    by (simp add: dict_in_def)
  have h5: "\<forall>x \<in> set [Release ''k1'', Acquire, Sweep 400, Release ''k2'', Acquire]. \<not> quarantines ''k1'' x"
    by (simp add: quarantines_def)
  have e: "get_full_status
         (run_ops ''groq'' [Release ''k1'', Acquire, Sweep 400, Release ''k2'', Acquire]
            (retire_key \<lparr>pools = [''groq'' \<mapsto>
              \<lparr>available = [''k2''],
               quarantined = [(''k3'', \<lparr>reason = ''HTTP 429'', end_time = 300\<rparr>)],
               retired = [], total_keys = 3, free_keys = [''k1'', ''k2'', ''k3''],
               paid_keys = []\<rparr>],
            key_metadata = Map.empty\<rparr> ''groq'' ''k1'' ''HTTP 401'')) ''groq''
       = Some (1, 0, 1, 2)"
    by (simp add: startswith_def get_key_def pool_get_key.simps dict_in_def retire_key_def
        pool_retire_key_def release_key_def pool_release_key_def check_quarantine_once_def
        sweep_pool_def get_full_status_def Let_def)
  show ?thesis
    using h1 h3 h4 e retired_key_stays_out [OF h1 h2 h3 h4 h5, of "''HTTP 401''"]
    by blast
qed

section \<open>Properties of the execution engine\<close>

lemma stream_loop_started:
  assumes "get_key m provider [] = (Inr (Some k), m1, arr)"
    and "proxy attempt k = Stream (c # cs) (Some f)"
  shows "fst (stream_loop (Suc n) attempt provider proxy now m) = (c # cs, Some (Raised f))"
  using assms by (cases f) (simp_all add: Let_def)

text \<open>
  Claim C1, as stated, fails for an agent request, which runs on the LLM step of the agent
  engine: with three keys for the first profile, each attempt on it yields a chunk before the
  connection is reset, and the step goes on to the second profile, whose chunks follow
  those already yielded.
\<close>

theorem agent_fallback_counterexample:
  "fst (execute_llm_step example_cfg example_provider_map groq_reset_mid_stream Map.empty 0
          [''P_Groq'', ''P_Cerebras''] example_manager_three_keys [])
     = ([''Hel'', ''Hel'', ''Hel'', ''Hel'', ''lo''], None)"
  by code_simp

text \<open>
  Claim C1, amended. For a streaming request that \<^verbatim>\<open>route_request\<close> serves (a request that
  is not an agent request), the first chunk of the stream of a profile is pulled before a
  generator is returned. When that pull raises \<^verbatim>\<open>ProviderUnavailableError\<close> before any
  chunk, the result is that of the rest of the chain: nothing of the failed profile is in
  it. When a first chunk was yielded, the generator returned is fed by that profile alone
  and ends the way its stream ends, whatever the rest of the chain is; and the key loop of
  the stream wrapper, once an attempt has yielded a chunk and fails, ends with that failure
  instead of trying another key.
\<close>

theorem first_chunk_fallback:
  assumes "cfg name = Some provider" and "provider_map provider"
    and "fst (execute_streaming_request_with_key_rotation provider (proxy name)
                (user_keys provider) now m) = (chunks, ending)"
  shows "(chunks = [] \<and> ending = Some ProviderUnavailableError \<longrightarrow>
            route_stream cfg provider_map proxy user_keys now (name # rest) m
              = route_stream cfg provider_map proxy user_keys now rest
                  (snd (execute_streaming_request_with_key_rotation provider (proxy name)
                          (user_keys provider) now m)))
       \<and> (\<forall>c cs. chunks = c # cs \<longrightarrow>
            route_stream cfg provider_map proxy user_keys now (name # rest) m
              = (Streamed name ((if c \<noteq> [] then [c] else []) @ cs) ending,
                 snd (execute_streaming_request_with_key_rotation provider (proxy name)
                        (user_keys provider) now m)))
       \<and> (\<forall>k m1 arr attempt n c cs f.
            get_key m provider [] = (Inr (Some k), m1, arr)
            \<and> proxy name attempt k = Stream (c # cs) (Some f) \<longrightarrow>
            fst (stream_loop (Suc n) attempt provider (proxy name) now m)
              = (c # cs, Some (Raised f)))"
proof -
  obtain m' where e: "execute_streaming_request_with_key_rotation provider (proxy name)
                (user_keys provider) now m = ((chunks, ending), m')"
    using assms(3) by (cases "execute_streaming_request_with_key_rotation provider (proxy name)
                (user_keys provider) now m") auto
  have a: "chunks = [] \<and> ending = Some ProviderUnavailableError \<longrightarrow>
            route_stream cfg provider_map proxy user_keys now (name # rest) m
              = route_stream cfg provider_map proxy user_keys now rest m'"
    using assms(1,2) by (simp add: e)
  have b: "\<forall>c cs. chunks = c # cs \<longrightarrow>
            route_stream cfg provider_map proxy user_keys now (name # rest) m
              = (Streamed name ((if c \<noteq> [] then [c] else []) @ cs) ending, m')"
    using assms(1,2) by (simp add: e)
  have c: "\<forall>k m1 arr attempt n c cs f.
            get_key m provider [] = (Inr (Some k), m1, arr)
            \<and> proxy name attempt k = Stream (c # cs) (Some f) \<longrightarrow>
            fst (stream_loop (Suc n) attempt provider (proxy name) now m)
              = (c # cs, Some (Raised f))"
    using stream_loop_started by blast
  have s: "snd (execute_streaming_request_with_key_rotation provider (proxy name)
                  (user_keys provider) now m) = m'"
    by (simp add: e)
  show ?thesis
    unfolding s using a b c by blast
qed

theorem first_chunk_fallback_witness:
  "example_cfg ''P_Groq'' = Some ''groq'' \<and> example_provider_map ''groq''
   \<and> fst (execute_streaming_request_with_key_rotation ''groq'' (groq_429_on_connect ''P_Groq'')
            (Map.empty ''groq'') 0 example_manager) = ([], Some ProviderUnavailableError)
   \<and> route_stream example_cfg example_provider_map groq_429_on_connect Map.empty 0
         [''P_Groq'', ''P_Cerebras''] example_manager
       = route_stream example_cfg example_provider_map groq_429_on_connect Map.empty 0
           [''P_Cerebras'']
           (snd (execute_streaming_request_with_key_rotation ''groq''
                   (groq_429_on_connect ''P_Groq'') (Map.empty ''groq'') 0 example_manager))
   \<and> fst (route_stream example_cfg example_provider_map groq_429_on_connect Map.empty 0
              [''P_Groq'', ''P_Cerebras''] example_manager)
       = Streamed ''P_Cerebras'' [''Hel'', ''lo''] None
   \<and> fst (execute_streaming_request_with_key_rotation ''groq'' (groq_reset_mid_stream ''P_Groq'')
            (Map.empty ''groq'') 0 example_manager)
       = ([''Hel''], Some (Raised (OtherError ''connection reset'')))
   \<and> route_stream example_cfg example_provider_map groq_reset_mid_stream Map.empty 0
         [''P_Groq'', ''P_Cerebras''] example_manager
       = (Streamed ''P_Groq'' [''Hel''] (Some (Raised (OtherError ''connection reset''))),
          snd (execute_streaming_request_with_key_rotation ''groq''
                 (groq_reset_mid_stream ''P_Groq'') (Map.empty ''groq'') 0 example_manager))"
proof -
  have h1: "example_cfg ''P_Groq'' = Some ''groq''"
    by (simp add: example_cfg_def)
  have h2: "example_provider_map ''groq''"
    by (simp add: example_provider_map_def)
  have h3: "fst (execute_streaming_request_with_key_rotation ''groq''
                   (groq_429_on_connect ''P_Groq'') (Map.empty ''groq'') 0 example_manager)
              = ([], Some ProviderUnavailableError)"
    by code_simp
  have h4: "fst (execute_streaming_request_with_key_rotation ''groq''
                   (groq_reset_mid_stream ''P_Groq'') (Map.empty ''groq'') 0 example_manager)
              = ([''Hel''], Some (Raised (OtherError ''connection reset'')))"
    by code_simp
  have e: "fst (route_stream example_cfg example_provider_map groq_429_on_connect Map.empty 0
              [''P_Groq'', ''P_Cerebras''] example_manager)
       = Streamed ''P_Cerebras'' [''Hel'', ''lo''] None"
    by code_simp
  note a = first_chunk_fallback [where cfg = example_cfg and name = "''P_Groq''"
      and provider = "''groq''" and provider_map = example_provider_map
      and proxy = groq_429_on_connect and user_keys = Map.empty and now = 0
      and m = example_manager and rest = "[''P_Cerebras'']", OF h1 h2 h3]
  note b = first_chunk_fallback [where cfg = example_cfg and name = "''P_Groq''"
      and provider = "''groq''" and provider_map = example_provider_map
      and proxy = groq_reset_mid_stream and user_keys = Map.empty and now = 0
      and m = example_manager and rest = "[''P_Cerebras'']", OF h1 h2 h4]
  have a': "route_stream example_cfg example_provider_map groq_429_on_connect Map.empty 0
         [''P_Groq'', ''P_Cerebras''] example_manager
       = route_stream example_cfg example_provider_map groq_429_on_connect Map.empty 0
           [''P_Cerebras'']
           (snd (execute_streaming_request_with_key_rotation ''groq''
                   (groq_429_on_connect ''P_Groq'') (Map.empty ''groq'') 0 example_manager))"
    using a by blast
  have b': "route_stream example_cfg example_provider_map groq_reset_mid_stream Map.empty 0
         [''P_Groq'', ''P_Cerebras''] example_manager
       = (Streamed ''P_Groq'' [''Hel''] (Some (Raised (OtherError ''connection reset''))),
          snd (execute_streaming_request_with_key_rotation ''groq''
                 (groq_reset_mid_stream ''P_Groq'') (Map.empty ''groq'') 0 example_manager))"
    using b by simp
  show ?thesis
    using h1 h2 h3 h4 e a' b' by blast
qed





lemma pool_get_key_timeout:
  "pool_get_key pl arr = (Inl e, pl', arr')
     \<Longrightarrow> available pl' = []
         \<and> (case arr' of [] \<Rightarrow> True | (d, k) # rest \<Rightarrow> GET_KEY_TIMEOUT_SECONDS \<le> d)"
proof (induction pl arr arbitrary: pl' arr' rule: pool_get_key.induct)
  case (1 pl arr)
  show ?case
  proof (cases "queue_get (available pl) arr")
    case None
    then have "pl' = pl" "arr' = arr"
      using "1.prems" by (simp_all add: pool_get_key.simps [of pl arr])
    moreover have "available pl = [] \<and>
        (case arr of [] \<Rightarrow> True | (d, k) # rest \<Rightarrow> GET_KEY_TIMEOUT_SECONDS \<le> d)"
      using None by (cases "available pl"; cases arr) (auto split: if_splits)
    ultimately show ?thesis by simp
  next
    case (Some t)
    obtain k q a where t: "t = (k, q, a)" by (cases t)
    show ?thesis
    proof (cases "dict_in k (retired pl)")
      case True
      then have "pool_get_key (pl\<lparr>available := q\<rparr>) a = (Inl e, pl', arr')"
        using "1.prems" Some t by (simp add: pool_get_key.simps [of pl arr])
      from "1.IH" [OF Some t [symmetric] refl True this]
      show ?thesis .
    next
      case False
      then show ?thesis
        using "1.prems" Some t by (simp add: pool_get_key.simps [of pl arr])
    qed
  qed
qed

lemma unconfigured_get_key:
  "\<not> startswith p ''local'' \<Longrightarrow> pools m p = None \<Longrightarrow> get_key m p arr = (Inr None, m, arr)"
  by (simp add: get_key_def)

lemma unconfigured_max_attempts:
  "\<not> startswith p ''local'' \<Longrightarrow> pools m p = None \<Longrightarrow> max_attempts m p = Suc 0"
  by (simp add: max_attempts_def get_full_status_def)

text \<open>
  Claim C10. For a provider whose name does not start with \<^verbatim>\<open>local\<close>: when it has no pool,
  \<^verbatim>\<open>get_key\<close> returns \<^verbatim>\<open>None\<close> at once, whatever the other tasks do, and changes nothing;
  when \<^verbatim>\<open>get_key\<close> raises the timeout error the provider has a pool, the queue is empty and
  no key arrives in it before the deadline of 15 seconds; and the callers turn \<^verbatim>\<open>None\<close> into
  \<^verbatim>\<open>ProviderUnavailableError\<close>: the LLM step of the agent engine leaves the profile for the
  next one of the chain and raises it when the chain ends, and the execution engine raises
  it for the profile.
\<close>

theorem unconfigured_provider:
  assumes "\<not> startswith p ''local''"
  shows "(pools m p = None \<longrightarrow> get_key m p arr = (Inr None, m, arr))
       \<and> (\<forall>e m' arr'. get_key m p arr = (Inl e, m', arr') \<longrightarrow>
            (case pools m p of None \<Rightarrow> False | Some pl \<Rightarrow> True)
            \<and> (case pools m' p of None \<Rightarrow> False | Some pl' \<Rightarrow> available pl' = [])
            \<and> (case arr' of [] \<Rightarrow> True | (d, k) # rest \<Rightarrow> GET_KEY_TIMEOUT_SECONDS \<le> d))
       \<and> (pools m p = None \<and> cfg name = Some p \<and> provider_map p \<and> user_keys p = None \<longrightarrow>
            execute_llm_step cfg provider_map sproxy user_keys now (name # rest) m emitted
              = execute_llm_step cfg provider_map sproxy user_keys now rest m emitted
            \<and> execute_llm_step cfg provider_map sproxy user_keys now [name] m emitted
              = ((emitted, Some ProviderUnavailableError), m)
            \<and> execute_request_with_key_rotation p proxy None now m
              = (Inl ProviderUnavailableError, m))"
proof -
  have a: "pools m p = None \<longrightarrow> get_key m p arr = (Inr None, m, arr)"
    using assms by (simp add: get_key_def)
  have b: "\<forall>e m' arr'. get_key m p arr = (Inl e, m', arr') \<longrightarrow>
            (case pools m p of None \<Rightarrow> False | Some pl \<Rightarrow> True)
            \<and> (case pools m' p of None \<Rightarrow> False | Some pl' \<Rightarrow> available pl' = [])
            \<and> (case arr' of [] \<Rightarrow> True | (d, k) # rest \<Rightarrow> GET_KEY_TIMEOUT_SECONDS \<le> d)"
  proof (intro allI impI)
    fix e m' arr'
    assume g: "get_key m p arr = (Inl e, m', arr')"
    then obtain pl where pl: "pools m p = Some pl"
      using assms by (cases "pools m p") (auto simp: get_key_def)
    obtain r pl' a where pg: "pool_get_key pl arr = (r, pl', a)"
      by (cases "pool_get_key pl arr") auto
    from g pl pg assms have r: "r = Inl e" and m': "m' = m\<lparr>pools := (pools m)(p \<mapsto> pl')\<rparr>"
      and a: "a = arr'"
      by (cases r; simp add: get_key_def)+
    from pool_get_key_timeout [OF pg [unfolded r a]]
    show "(case pools m p of None \<Rightarrow> False | Some pl \<Rightarrow> True)
            \<and> (case pools m' p of None \<Rightarrow> False | Some pl' \<Rightarrow> available pl' = [])
            \<and> (case arr' of [] \<Rightarrow> True | (d, k) # rest \<Rightarrow> GET_KEY_TIMEOUT_SECONDS \<le> d)"
      by (simp add: pl m')
  qed
  have c: "pools m p = None \<and> cfg name = Some p \<and> provider_map p \<and> user_keys p = None \<longrightarrow>
            execute_llm_step cfg provider_map sproxy user_keys now (name # rest) m emitted
              = execute_llm_step cfg provider_map sproxy user_keys now rest m emitted
            \<and> execute_llm_step cfg provider_map sproxy user_keys now [name] m emitted
              = ((emitted, Some ProviderUnavailableError), m)
            \<and> execute_request_with_key_rotation p proxy None now m
              = (Inl ProviderUnavailableError, m)"
    using assms
    by (simp add: numeral_3_eq_3 unconfigured_get_key unconfigured_max_attempts
        execute_request_with_key_rotation_def)
  show ?thesis
    using a b c by blast
qed

theorem unconfigured_provider_witness:
  "\<not> startswith ''openai'' ''local'' \<and> pools example_manager ''openai'' = None
   \<and> get_key example_manager ''openai'' [(3, ''sk-9'')]
       = (Inr None, example_manager, [(3, ''sk-9'')])
   \<and> \<not> startswith ''groq'' ''local''
   \<and> fst (get_key (fst (snd (get_key example_manager ''groq'' []))) ''groq'' [(20, ''gk-1'')])
       = Inl GetKeyTimeoutError
   \<and> fst (get_key (fst (snd (get_key example_manager ''groq'' []))) ''groq'' [(3, ''gk-1'')])
       = Inr (Some ''gk-1'')
   \<and> execute_llm_step [''P_OpenAI'' \<mapsto> ''openai''] (\<lambda>p. True) (\<lambda>name. stream_bad_request)
         Map.empty 0 [''P_OpenAI''] example_manager []
       = (([], Some ProviderUnavailableError), example_manager)
   \<and> execute_request_with_key_rotation ''openai'' bad_request_then_ok None 0 example_manager
       = (Inl ProviderUnavailableError, example_manager)"
proof -
  have h1: "\<not> startswith ''openai'' ''local''" and h2: "\<not> startswith ''groq'' ''local''"
    by (simp_all add: startswith_def)
  have h3: "pools example_manager ''openai'' = None"
    by (simp add: example_manager_def)
  have e1: "fst (get_key (fst (snd (get_key example_manager ''groq'' []))) ''groq'' [(20, ''gk-1'')])
       = Inl GetKeyTimeoutError"
    by code_simp
  have e2: "fst (get_key (fst (snd (get_key example_manager ''groq'' []))) ''groq'' [(3, ''gk-1'')])
       = Inr (Some ''gk-1'')"
    by code_simp
  note t = unconfigured_provider [OF h1, where m = example_manager and arr = "[(3, ''sk-9'')]"
      and cfg = "[''P_OpenAI'' \<mapsto> ''openai'']" and name = "''P_OpenAI''"
      and provider_map = "\<lambda>p. True" and user_keys = Map.empty
      and sproxy = "\<lambda>name. stream_bad_request" and proxy = bad_request_then_ok
      and now = 0 and emitted = "[]" and rest = "[]"]
  have a: "get_key example_manager ''openai'' [(3, ''sk-9'')]
       = (Inr None, example_manager, [(3, ''sk-9'')])"
    using t h3 by blast
  have c: "execute_llm_step [''P_OpenAI'' \<mapsto> ''openai''] (\<lambda>p. True) (\<lambda>name. stream_bad_request)
         Map.empty 0 [''P_OpenAI''] example_manager []
       = (([], Some ProviderUnavailableError), example_manager)
     \<and> execute_request_with_key_rotation ''openai'' bad_request_then_ok None 0 example_manager
       = (Inl ProviderUnavailableError, example_manager)"
    using t h3 by simp
  show ?thesis
    using h1 h2 h3 e1 e2 a c by blast
qed

section \<open>Properties of message normalization\<close>

lemma strip_nonempty: "strip s \<noteq> [] \<longleftrightarrow> (\<exists>c \<in> set s. \<not> is_space c)"
proof -
  have "strip s = [] \<longleftrightarrow> (\<forall>c \<in> set (dropWhile is_space s). is_space c)"
    by (simp add: strip_def dropWhile_eq_Nil_conv)
  also have "\<dots> \<longleftrightarrow> (\<forall>c \<in> set s. is_space c)"
  proof
    assume a: "\<forall>c \<in> set (dropWhile is_space s). is_space c"
    show "\<forall>c \<in> set s. is_space c"
    proof (rule ccontr)
      assume "\<not> (\<forall>c \<in> set s. is_space c)"
      then have ne: "dropWhile is_space s \<noteq> []"
        by (simp add: dropWhile_eq_Nil_conv)
      then have "\<not> is_space (hd (dropWhile is_space s))"
        by (rule hd_dropWhile)
      moreover have "hd (dropWhile is_space s) \<in> set (dropWhile is_space s)"
        using ne by simp
      ultimately show False using a by blast
    qed
  next
    assume "\<forall>c \<in> set s. is_space c"
    then show "\<forall>c \<in> set (dropWhile is_space s). is_space c"
      by (meson set_dropWhileD)
  qed
  finally show ?thesis by blast
qed

lemma merge_contents_keeps:
  assumes "keeps a" and "merge_contents (content a) (content b) = Inr c"
  shows "keeps (a\<lparr>content := Some c\<rparr>)"
proof (cases "\<exists>s t. content a = Some (CStr s) \<and> content b = Some (CStr t)")
  case True
  then obtain s t where st: "content a = Some (CStr s)" "content b = Some (CStr t)" by blast
  then have "c = CStr (s @ newline @ t)"
    using assms(2) by (simp add: merge_contents_def)
  moreover have "strip s \<noteq> []" using assms(1) st by (simp add: keeps_def)
  ultimately show ?thesis
    by (auto simp: keeps_def strip_nonempty)
next
  case False
  then have "\<exists>ps. c = CList ps"
    using assms(2)
    by (auto simp: merge_contents_def Let_def
        split: option.splits content.splits part.splits if_splits)
  then show ?thesis by (auto simp: keeps_def)
qed

lemma merge_loop_inv:
  assumes "merge_loop acc rest = Inr y" and "list_all keeps acc" and "list_all keeps rest"
    and "distinct_adj (map role acc)"
  shows "list_all keeps y \<and> distinct_adj (map role y)"
  using assms
proof (induction rest arbitrary: acc)
  case Nil
  then show ?case by simp
next
  case (Cons msg rest)
  show ?case
  proof (cases "acc = []")
    case True
    then have r: "merge_loop [msg] rest = Inr y"
      using Cons.prems(1) by simp
    have k: "list_all keeps [msg]"
      using Cons.prems(3) by simp
    have d: "distinct_adj (map role [msg])"
      by simp
    show ?thesis
      using Cons.prems(3) by (intro Cons.IH [OF r k _ d]) simp
  next
    case False
    note ne = False
    show ?thesis
    proof (cases "role msg = role (last acc)")
      case True
      then obtain c where c: "merge_contents (content (last acc)) (content msg) = Inr c"
        and r: "merge_loop (butlast acc @ [(last acc)\<lparr>content := Some c\<rparr>]) rest = Inr y"
        using Cons.prems(1) ne by (auto simp: Let_def split: sum.splits)
      have kl: "keeps (last acc)"
        using Cons.prems(2) ne by (simp add: list_all_iff)
      have k: "list_all keeps (butlast acc @ [(last acc)\<lparr>content := Some c\<rparr>])"
        using Cons.prems(2) merge_contents_keeps [OF kl c]
        by (auto simp: list_all_iff dest: in_set_butlastD)
      have "map role (butlast acc @ [(last acc)\<lparr>content := Some c\<rparr>])
              = map role (butlast acc @ [last acc])"
        by simp
      also have "\<dots> = map role acc"
        using append_butlast_last_id [OF ne] by (rule arg_cong)
      finally have d: "distinct_adj (map role (butlast acc @ [(last acc)\<lparr>content := Some c\<rparr>]))"
        using Cons.prems(4) by simp
      show ?thesis
        using Cons.prems(3) by (intro Cons.IH [OF r k _ d]) simp
    next
      case False
      then have r: "merge_loop (acc @ [msg]) rest = Inr y"
        using Cons.prems(1) ne by (simp add: Let_def)
      have k: "list_all keeps (acc @ [msg])"
        using Cons.prems(2,3) by simp
      have d: "distinct_adj (map role (acc @ [msg]))"
        using Cons.prems(4) False ne by (simp add: distinct_adj_append_iff last_map)
      show ?thesis
        using Cons.prems(3) by (intro Cons.IH [OF r k _ d]) simp
    qed
  qed
qed

lemma merge_loop_fixed:
  "distinct_adj (map role (acc @ y)) \<Longrightarrow> merge_loop acc y = Inr (acc @ y)"
proof (induction y arbitrary: acc)
  case Nil
  then show ?case by simp
next
  case (Cons msg rest)
  show ?case
  proof (cases "acc = []")
    case True
    then show ?thesis
      using Cons.IH [of "[msg]"] Cons.prems by simp
  next
    case False
    then have "role msg \<noteq> role (last acc)"
      using Cons.prems by (auto simp: distinct_adj_append_iff last_map)
    moreover have "merge_loop (acc @ [msg]) rest = Inr ((acc @ [msg]) @ rest)"
      using Cons.prems by (intro Cons.IH) simp
    ultimately show ?thesis
      using False by (simp add: Let_def)
  qed
qed

lemma openai_fixed:
  assumes "list_all keeps y" and "distinct_adj (map role y)"
  shows "normalize_for_openai y = Inr y"
proof -
  have f: "filter keeps y = y"
    using assms(1) by (simp add: list_all_iff)
  show ?thesis
    using merge_loop_fixed [of "[]" y] assms(2)
    by (cases "y = []") (simp_all add: normalize_for_openai_def f)
qed

lemma openai_idem:
  assumes "normalize_for_openai x = Inr y"
  shows "normalize_for_openai y = Inr y"
proof (cases "filter keeps x = []")
  case True
  then have "y = []" using assms by (simp add: normalize_for_openai_def)
  then show ?thesis by (simp add: normalize_for_openai_def)
next
  case False
  then have "merge_loop [] (filter keeps x) = Inr y"
    using assms by (simp add: normalize_for_openai_def)
  then have "list_all keeps y \<and> distinct_adj (map role y)"
    by (rule merge_loop_inv) (simp_all add: list_all_iff)
  then show ?thesis
    using openai_fixed by blast
qed

lemma start_correction_started: "start_correction True ms = ms"
  by (induction ms) simp_all

lemma start_correction_idem:
  "start_correction False (start_correction False ms) = start_correction False ms"
  by (induction ms) (simp_all add: start_correction_started dummy_user_def)

lemma start_correction_keeps:
  "list_all keeps ms \<Longrightarrow> list_all keeps (start_correction False ms)"
proof (induction ms)
  case Nil
  then show ?case by simp
next
  case (Cons m ms)
  have "keeps (dummy_user :: 'a message)"
    by (simp add: keeps_def dummy_user_def strip_nonempty is_space_def)
  then show ?case
    using Cons by (simp add: start_correction_started)
qed

lemma hd_start_correction:
  "ms \<noteq> [] \<Longrightarrow> role (hd (start_correction False ms)) \<noteq> Some ''system''
     \<Longrightarrow> role (hd ms) \<noteq> Some ''system''"
  by (cases ms) (auto split: if_splits)

lemma start_correction_distinct:
  "distinct_adj (map role ms) \<Longrightarrow> distinct_adj (map role (start_correction False ms))"
proof (induction ms)
  case Nil
  then show ?case by simp
next
  case (Cons m ms)
  show ?case
  proof (cases "role m = Some ''system''")
    case True
    have d: "distinct_adj (map role (start_correction False ms))"
      using Cons by (cases ms) simp_all
    show ?thesis
    proof (cases ms)
      case Nil
      then show ?thesis using True by simp
    next
      case (Cons m' ms')
      then have "role m' \<noteq> role m"
        using Cons.prems by auto
      then show ?thesis
        using True d Cons by (auto simp: dummy_user_def start_correction_started)
    qed
  next
    case False
    then show ?thesis
      using Cons.prems by (auto simp: start_correction_started dummy_user_def)
  qed
qed

lemma gemini_idem:
  assumes "normalize_for_gemini x = Inr z"
  shows "normalize_for_gemini z = Inr z"
proof (cases "filter keeps x = []")
  case True
  then have "z = []" using assms by (simp add: normalize_for_gemini_def)
  then show ?thesis by (simp add: normalize_for_gemini_def)
next
  case False
  then obtain y where y: "merge_loop [] (filter keeps x) = Inr y"
    and z: "z = start_correction False y"
    using assms by (auto simp: normalize_for_gemini_def split: sum.splits)
  have "list_all keeps y \<and> distinct_adj (map role y)"
    using y by (rule merge_loop_inv) (simp_all add: list_all_iff)
  then have k: "list_all keeps z" and d: "distinct_adj (map role z)"
    using z start_correction_keeps start_correction_distinct by blast+
  have f: "filter keeps z = z"
    using k by (simp add: list_all_iff)
  have m: "merge_loop [] z = Inr z"
    using merge_loop_fixed [of "[]" z] d by simp
  show ?thesis
    by (cases "z = []")
      (simp_all add: normalize_for_gemini_def f m, simp add: z start_correction_idem)
qed

text \<open>
  Claim C8. Message normalization is idempotent for both wire shapes: normalizing what
  \<^verbatim>\<open>normalize_for_openai\<close> returned gives it back unchanged, and so for
  \<^verbatim>\<open>normalize_for_gemini\<close>; a list on which the first call raises gives that exception in
  both.
\<close>

theorem normalization_idempotent:
  "normalize_twice normalize_for_openai x = normalize_for_openai x
   \<and> normalize_twice normalize_for_gemini x = normalize_for_gemini x"
proof
  show "normalize_twice normalize_for_openai x = normalize_for_openai x"
    using openai_idem [of x]
    by (cases "normalize_for_openai x") (simp_all add: normalize_twice_def)
  show "normalize_twice normalize_for_gemini x = normalize_for_gemini x"
    using gemini_idem [of x]
    by (cases "normalize_for_gemini x") (simp_all add: normalize_twice_def)
qed

section \<open>Properties of the response cache\<close>










end
